theory Spec2Isabelle
  imports Main
begin

section \<open>Data model\<close>

text \<open>
  A repository node as the GraphQL query of \<^verbatim>\<open>fetch_all_repositories\<close> selects it
  (\<^verbatim>\<open>name\<close>, \<^verbatim>\<open>nameWithOwner\<close>, \<^verbatim>\<open>sshUrl\<close>, \<^verbatim>\<open>isPrivate\<close>, \<^verbatim>\<open>owner { login }\<close>).
  The Python code keeps each node as the dict the JSON parser produced; the record fixes
  the keys the query asks for.
\<close>

record repo =
  name :: string
  nameWithOwner :: string
  sshUrl :: string
  isPrivate :: bool
  owner_login :: string

text \<open>\<^verbatim>\<open>pageInfo { hasNextPage endCursor }\<close>; \<^verbatim>\<open>endCursor\<close> is nullable.\<close>

record pageInfo =
  hasNextPage :: bool
  endCursor :: "string option"

text \<open>A \<^verbatim>\<open>repositories(...)\<close> connection: one page of nodes and its page info.\<close>

record connection =
  nodes :: "repo list"
  page_info :: pageInfo

text \<open>An element of \<^verbatim>\<open>organizations(first: 100) { nodes { login repositories(...) } }\<close>.\<close>

record org =
  org_login :: string
  org_repositories :: connection

text \<open>The \<^verbatim>\<open>viewer\<close> object of a response, i.e. \<^verbatim>\<open>data['viewer']\<close>.\<close>

record viewer =
  login :: string
  repositories :: connection
  organizations :: "org list"

text \<open>
  What \<^verbatim>\<open>session.post\<close> hands back: the HTTP status and the parsed JSON body.
  \<^verbatim>\<open>errors\<close> is \<open>None\<close> when the body has no \<^verbatim>\<open>'errors'\<close> key and \<open>Some es\<close>
  when it has one; \<^verbatim>\<open>data_viewer\<close> is \<^verbatim>\<open>body['data']['viewer']\<close>. The body is read
  only when the status is 200, and \<^verbatim>\<open>data\<close> only when there is no \<^verbatim>\<open>'errors'\<close> key.
\<close>

record response =
  status :: nat
  errors :: "string list option"
  data_viewer :: viewer

text \<open>
  The exceptions of the program. The source raises bare \<^verbatim>\<open>Exception\<close>s whose message
  carries the detail:
  \<^item> \<open>QueryFailed st\<close> is \<^verbatim>\<open>Exception(f"GraphQL query failed: {response.status}")\<close>;
  \<^item> \<open>GraphQLErrors es\<close> is \<^verbatim>\<open>Exception(f"GraphQL errors: {data['errors']}")\<close>;
  \<^item> \<open>LibraryError msg\<close> is any other \<^verbatim>\<open>Exception\<close> raised by a library call
    (the HTTP client, the filesystem, \<^verbatim>\<open>asyncio.Semaphore\<close>), with \<^verbatim>\<open>str(e) = msg\<close>.
\<close>

datatype exn =
  QueryFailed nat
| GraphQLErrors "string list"
| LibraryError string

text \<open>
  The \<^verbatim>\<open>variables\<close> dict of a request: \<^verbatim>\<open>{'repoCursor': c}\<close> is \<open>[(''repoCursor'', c)]\<close>,
  with Python's \<^verbatim>\<open>None\<close> as \<open>None\<close>.
\<close>

type_synonym variables = "(string \<times> string option) list"

text \<open>
  The query transport (\<^verbatim>\<open>self.session.post(...)\<close> followed by \<^verbatim>\<open>response.json()\<close>) is
  outside the program. It is a parameter: from the state of the outside world \<open>'w\<close> and
  the variables of the request to either an exception of the HTTP client or a response,
  and the next state of the world.
\<close>

type_synonym 'w transport = "'w \<Rightarrow> variables \<Rightarrow> (exn + response) \<times> 'w"

text \<open>A Python \<^verbatim>\<open>bytes\<close> value, one \<open>char\<close> per byte. A Python \<^verbatim>\<open>str\<close> is a \<open>string\<close>.\<close>

type_synonym bytes = "char list"

text \<open>An external process that ran to its end: \<^verbatim>\<open>proc.returncode\<close> and the two captured
  streams that \<^verbatim>\<open>proc.communicate()\<close> returns, as bytes.\<close>

record proc =
  returncode :: int
  stdout :: bytes
  stderr :: bytes

text \<open>The arguments of one \<^verbatim>\<open>asyncio.create_subprocess_exec\<close> call.\<close>

record invocation =
  argv :: "string list"
  cwd :: "string option"

text \<open>
  The operating system as \<^verbatim>\<open>clone_or_update_repo\<close> and \<^verbatim>\<open>run\<close> use it:
  \<^item> \<open>path_div\<close> is pathlib's \<^verbatim>\<open>/\<close> on a path and a string (paths are kept as the
    string \<^verbatim>\<open>str(path)\<close>);
  \<^item> \<open>path_exists\<close> is \<^verbatim>\<open>Path.exists()\<close>: \<open>Inr b\<close> when it answers \<open>b\<close>, \<open>Inl msg\<close> when
    it raises an \<^verbatim>\<open>OSError\<close> \<open>e\<close> with \<^verbatim>\<open>str(e) = msg\<close> (it does for a name that is too
    long, for one);
  \<^item> \<open>decode\<close> is \<^verbatim>\<open>bytes.decode()\<close>: \<open>Inr text\<close>, or \<open>Inl msg\<close> when the bytes are not
    UTF-8 and it raises a \<^verbatim>\<open>UnicodeDecodeError\<close> \<open>e\<close> with \<^verbatim>\<open>str(e) = msg\<close>;
  \<^item> \<open>exec\<close> is \<^verbatim>\<open>create_subprocess_exec\<close> followed by \<^verbatim>\<open>communicate()\<close>: \<open>Inl msg\<close>
    when either raises an exception \<open>e\<close> with \<^verbatim>\<open>str(e) = msg\<close>, \<open>Inr p\<close> when the
    process ran and exited;
  \<^item> \<open>mkdir_p\<close> is \<^verbatim>\<open>Path.mkdir(parents=True, exist_ok=True)\<close>, \<open>Some msg\<close> when it raises.
\<close>

record 'w os =
  path_div :: "string \<Rightarrow> string \<Rightarrow> string"
  path_exists :: "'w \<Rightarrow> string \<Rightarrow> string + bool"
  decode :: "bytes \<Rightarrow> string + string"
  exec :: "'w \<Rightarrow> invocation \<Rightarrow> (string + proc) \<times> 'w"
  mkdir_p :: "'w \<Rightarrow> string \<Rightarrow> string option \<times> 'w"

text \<open>
  The state threaded through the program: the outside world, \<^verbatim>\<open>self.username\<close>, and two
  logs that the source does not keep but the properties speak about: every request sent
  with what came back, and every process invocation with its outcome, in order.
\<close>

record 'w st =
  world :: 'w
  username :: "string option"
  requests :: "(variables \<times> (exn + response)) list"
  invoked :: "(invocation \<times> (string + proc)) list"

text \<open>The dict \<^verbatim>\<open>clone_or_update_repo\<close> returns; \<open>res_error\<close> is \<open>None\<close> when the dict
  has no \<^verbatim>\<open>'error'\<close> key.\<close>

record sync_result =
  res_name :: string
  res_status :: string
  res_path :: string
  res_error :: "string option"

section \<open>The repository enumerator\<close>

subsection \<open>\<^verbatim>\<open>graphql_query\<close>\<close>

text \<open>
  Lines 46-56. The status is tested before the body is read, and the presence of the
  \<^verbatim>\<open>'errors'\<close> key before \<^verbatim>\<open>data['data']\<close> is returned. Both call sites pass a non-empty
  \<^verbatim>\<open>variables\<close> dict, so the payload always carries it.
\<close>

definition graphql_query ::
  "'w transport \<Rightarrow> variables \<Rightarrow> 'w st \<Rightarrow> (exn + viewer) \<times> 'w st" where
  "graphql_query post vars s =
     (case post (world s) vars of (r, w') \<Rightarrow>
        let s' = s\<lparr>world := w', requests := requests s @ [(vars, r)]\<rparr> in
        (case r of
           Inl e \<Rightarrow> (Inl e, s')
         | Inr resp \<Rightarrow>
             if status resp \<noteq> 200 then (Inl (QueryFailed (status resp)), s')
             else (case errors resp of
                     Some es \<Rightarrow> (Inl (GraphQLErrors es), s')
                   | None \<Rightarrow> (Inr (data_viewer resp), s'))))"

subsection \<open>Pagination in \<^verbatim>\<open>fetch_all_repositories\<close>\<close>

text \<open>
  Each \<^verbatim>\<open>while True\<close> loop may run forever (a server can answer \<^verbatim>\<open>hasNextPage\<close> true
  on every page), so each takes a bound on its number of iterations and returns \<open>None\<close>
  when the bound is used up; \<open>Some (Inl e)\<close> is a raised exception, \<open>Some (Inr v)\<close> a
  normal exit of the loop.
\<close>

text \<open>\<^verbatim>\<open>if not self.username: self.username = viewer['login']\<close>: \<^verbatim>\<open>None\<close> and the empty
  string are both falsy.\<close>

definition set_username :: "viewer \<Rightarrow> 'w st \<Rightarrow> 'w st" where
  "set_username v s =
     (if username s = None \<or> username s = Some [] then s\<lparr>username := Some (login v)\<rparr> else s)"

text \<open>Lines 98-108, step 1. The loop state is \<^verbatim>\<open>repo_cursor\<close> and \<^verbatim>\<open>all_repos\<close>; the
  \<^verbatim>\<open>viewer\<close> of the last response stays in scope after the loop and is returned with
  the pool.\<close>

fun fetch_personal ::
  "nat \<Rightarrow> 'w transport \<Rightarrow> string option \<Rightarrow> repo list \<Rightarrow> 'w st
     \<Rightarrow> (exn + viewer \<times> repo list) option \<times> 'w st" where
  "fetch_personal 0 post repo_cursor all_repos s = (None, s)"
| "fetch_personal (Suc n) post repo_cursor all_repos s =
     (case graphql_query post [(''repoCursor'', repo_cursor)] s of
        (Inl e, s1) \<Rightarrow> (Some (Inl e), s1)
      | (Inr v, s1) \<Rightarrow>
          let s2 = set_username v s1;
              repos = repositories v;
              all_repos' = all_repos @ nodes repos
          in if \<not> hasNextPage (page_info repos) then (Some (Inr (v, all_repos')), s2)
             else fetch_personal n post (endCursor (page_info repos)) all_repos' s2)"

text \<open>Lines 113-122, the inner loop of step 2. The page is read from \<^verbatim>\<open>orgs[0]\<close> of the
  response.\<close>

fun fetch_org_pages ::
  "nat \<Rightarrow> 'w transport \<Rightarrow> string option \<Rightarrow> repo list \<Rightarrow> 'w st
     \<Rightarrow> (exn + repo list) option \<times> 'w st" where
  "fetch_org_pages 0 post org_cursor all_repos s = (None, s)"
| "fetch_org_pages (Suc n) post org_cursor all_repos s =
     (case graphql_query post [(''orgCursor'', org_cursor)] s of
        (Inl e, s1) \<Rightarrow> (Some (Inl e), s1)
      | (Inr v, s1) \<Rightarrow>
          (case organizations v of
             [] \<Rightarrow> (Some (Inr all_repos), s1)
           | org0 # _ \<Rightarrow>
               let org_repos = org_repositories org0;
                   all_repos' = all_repos @ nodes org_repos
               in if \<not> hasNextPage (page_info org_repos) then (Some (Inr all_repos'), s1)
                  else fetch_org_pages n post (endCursor (page_info org_repos)) all_repos' s1))"

text \<open>Lines 111-112, the \<^verbatim>\<open>for org in viewer['organizations']['nodes']\<close> loop. Its body
  starts the inner loop with \<^verbatim>\<open>org_cursor = None\<close> and does not mention \<^verbatim>\<open>org\<close>.\<close>

fun fetch_orgs ::
  "nat \<Rightarrow> 'w transport \<Rightarrow> org list \<Rightarrow> repo list \<Rightarrow> 'w st
     \<Rightarrow> (exn + repo list) option \<times> 'w st" where
  "fetch_orgs n post [] all_repos s = (Some (Inr all_repos), s)"
| "fetch_orgs n post (org # orgs) all_repos s =
     (case fetch_org_pages n post None all_repos s of
        (Some (Inr all_repos'), s1) \<Rightarrow> fetch_orgs n post orgs all_repos' s1
      | (r, s1) \<Rightarrow> (r, s1))"

subsection \<open>Deduplication\<close>

text \<open>
  Lines 125-126. A Python dict keeps its keys in the order of their first insertion, and
  assigning to a key that is present replaces the value in place; the dict is an
  association list with distinct keys.
\<close>

fun dict_setitem :: "('k \<times> 'v) list \<Rightarrow> 'k \<Rightarrow> 'v \<Rightarrow> ('k \<times> 'v) list" where
  "dict_setitem [] k v = [(k, v)]"
| "dict_setitem ((k', v') # d) k v =
     (if k' = k then (k, v) # d else (k', v') # dict_setitem d k v)"

text \<open>\<^verbatim>\<open>{r['nameWithOwner']: r for r in all_repos}\<close>\<close>

definition unique_repos :: "repo list \<Rightarrow> (string \<times> repo) list" where
  "unique_repos all_repos = foldl (\<lambda>d r. dict_setitem d (nameWithOwner r) r) [] all_repos"

text \<open>\<^verbatim>\<open>list(unique_repos.values())\<close>\<close>

definition deduplicate :: "repo list \<Rightarrow> repo list" where
  "deduplicate all_repos = map snd (unique_repos all_repos)"

subsection \<open>\<^verbatim>\<open>fetch_all_repositories\<close>\<close>

text \<open>Lines 94-126: step 1, then step 2 over the organizations of the last step-1
  response, then the deduplication. An exception leaves the function at once.\<close>

definition fetch_all_repositories ::
  "nat \<Rightarrow> 'w transport \<Rightarrow> 'w st \<Rightarrow> (exn + repo list) option \<times> 'w st" where
  "fetch_all_repositories n post s =
     (case fetch_personal n post None [] s of
        (Some (Inr (v, all_repos)), s1) \<Rightarrow>
          (case fetch_orgs n post (organizations v) all_repos s1 of
             (Some (Inr all_repos'), s2) \<Rightarrow> (Some (Inr (deduplicate all_repos')), s2)
           | (r, s2) \<Rightarrow> (r, s2))
      | (Some (Inl e), s1) \<Rightarrow> (Some (Inl e), s1)
      | (None, s1) \<Rightarrow> (None, s1))"

section \<open>The sync engine\<close>

subsection \<open>\<^verbatim>\<open>clone_or_update_repo\<close>\<close>

text \<open>One \<^verbatim>\<open>create_subprocess_exec(*args, cwd=dir, ...)\<close> with its \<^verbatim>\<open>communicate()\<close>,
  entered in the log of invocations.\<close>

definition subprocess_exec ::
  "'w os \<Rightarrow> string list \<Rightarrow> string option \<Rightarrow> 'w st \<Rightarrow> (string + proc) \<times> 'w st" where
  "subprocess_exec os args dir s =
     (let inv = \<lparr>argv = args, cwd = dir\<rparr> in
      case exec os (world s) inv of (r, w') \<Rightarrow>
        (r, s\<lparr>world := w', invoked := invoked s @ [(inv, r)]\<rparr>))"

text \<open>
  Line 136, the condition \<^verbatim>\<open>repo_path.exists() and (repo_path / '.git').exists()\<close>:
  the second check is made only when the first answers true, and either may raise.
\<close>

definition has_clone :: "'w os \<Rightarrow> 'w \<Rightarrow> string \<Rightarrow> string + bool" where
  "has_clone os w repo_path =
     (case path_exists os w repo_path of
        Inl e \<Rightarrow> Inl e
      | Inr there \<Rightarrow>
          if there then path_exists os w (path_div os repo_path ''.git'') else Inr False)"

text \<open>
  In the three definitions that follow, \<open>Inl (msg, result)\<close> is an exception \<open>e\<close> with
  \<^verbatim>\<open>str(e) = msg\<close> leaving the \<^verbatim>\<open>try\<close> statement, with the dict \<^verbatim>\<open>result\<close> as it is at
  that moment. What can raise are \<^verbatim>\<open>Path.exists()\<close>, the calls of the process layer and
  \<^verbatim>\<open>stderr.decode()\<close>.

  Lines 138-158, the update path. The result of the fetch step's \<^verbatim>\<open>communicate()\<close> is
  dropped and its \<^verbatim>\<open>returncode\<close> is never read. On a non-zero exit code of the pull,
  \<^verbatim>\<open>status\<close> is assigned before \<^verbatim>\<open>stderr.decode()\<close> is evaluated.
\<close>

definition update_path ::
  "'w os \<Rightarrow> string \<Rightarrow> sync_result \<Rightarrow> 'w st
     \<Rightarrow> (string \<times> sync_result + sync_result) \<times> 'w st" where
  "update_path os repo_path result s =
     (case subprocess_exec os [''git'', ''fetch'', ''--all'', ''--prune''] (Some repo_path) s of
        (Inl e, s1) \<Rightarrow> (Inl (e, result), s1)
      | (Inr proc_fetch, s1) \<Rightarrow>
          (case subprocess_exec os [''git'', ''pull'', ''--ff-only''] (Some repo_path) s1 of
             (Inl e, s2) \<Rightarrow> (Inl (e, result), s2)
           | (Inr proc_pull, s2) \<Rightarrow>
               if returncode proc_pull = 0
               then (Inr (result\<lparr>res_status := ''updated''\<rparr>), s2)
               else
                 (let result1 = result\<lparr>res_status := ''update_failed''\<rparr> in
                  case decode os (stderr proc_pull) of
                    Inl e \<Rightarrow> (Inl (e, result1), s2)
                  | Inr text \<Rightarrow> (Inr (result1\<lparr>res_error := Some text\<rparr>), s2))))"

text \<open>Lines 161-172, the clone path. On a non-zero exit code, \<^verbatim>\<open>status\<close> is assigned
  before \<^verbatim>\<open>stderr.decode()\<close> is evaluated.\<close>

definition clone_path ::
  "'w os \<Rightarrow> string \<Rightarrow> string \<Rightarrow> sync_result \<Rightarrow> 'w st
     \<Rightarrow> (string \<times> sync_result + sync_result) \<times> 'w st" where
  "clone_path os repo_path url result s =
     (case subprocess_exec os [''git'', ''clone'', url, repo_path, ''--progress''] None s of
        (Inl e, s1) \<Rightarrow> (Inl (e, result), s1)
      | (Inr proc_clone, s1) \<Rightarrow>
          if returncode proc_clone = 0
          then (Inr (result\<lparr>res_status := ''cloned''\<rparr>), s1)
          else
            (let result1 = result\<lparr>res_status := ''clone_failed''\<rparr> in
             case decode os (stderr proc_clone) of
               Inl e \<Rightarrow> (Inl (e, result1), s1)
             | Inr text \<Rightarrow> (Inr (result1\<lparr>res_error := Some text\<rparr>), s1)))"

text \<open>Lines 136-172, the body of the \<^verbatim>\<open>try\<close> statement.\<close>

definition try_block ::
  "'w os \<Rightarrow> string \<Rightarrow> string \<Rightarrow> sync_result \<Rightarrow> 'w st
     \<Rightarrow> (string \<times> sync_result + sync_result) \<times> 'w st" where
  "try_block os repo_path url result s =
     (case has_clone os (world s) repo_path of
        Inl e \<Rightarrow> (Inl (e, result), s)
      | Inr yes \<Rightarrow>
          if yes then update_path os repo_path result s
          else clone_path os repo_path url result s)"

text \<open>
  Lines 128-178. \<^verbatim>\<open>except Exception as e\<close> sets \<^verbatim>\<open>status\<close> to \<^verbatim>\<open>'error'\<close> and
  \<^verbatim>\<open>error\<close> to \<^verbatim>\<open>str(e)\<close> in the dict as the \<^verbatim>\<open>try\<close> statement left it.
\<close>

definition clone_or_update_repo ::
  "'w os \<Rightarrow> string \<Rightarrow> repo \<Rightarrow> 'w st \<Rightarrow> sync_result \<times> 'w st" where
  "clone_or_update_repo os target_dir repo s =
     (let nm = nameWithOwner repo;
          repo_path = path_div os target_dir (name repo);
          result = \<lparr>res_name = nm, res_status = ''unknown'', res_path = repo_path,
                    res_error = None\<rparr>;
          url = sshUrl repo
      in case try_block os repo_path url result s of
           (Inr result', s') \<Rightarrow> (result', s')
         | (Inl (e, result'), s') \<Rightarrow>
             (result'\<lparr>res_status := ''error'', res_error := Some e\<rparr>, s'))"

text \<open>The three invocations of the version-control executable.\<close>

definition git_fetch :: "string \<Rightarrow> invocation" where
  "git_fetch repo_path =
     \<lparr>argv = [''git'', ''fetch'', ''--all'', ''--prune''], cwd = Some repo_path\<rparr>"

definition git_pull :: "string \<Rightarrow> invocation" where
  "git_pull repo_path = \<lparr>argv = [''git'', ''pull'', ''--ff-only''], cwd = Some repo_path\<rparr>"

definition git_clone :: "string \<Rightarrow> string \<Rightarrow> invocation" where
  "git_clone url repo_path =
     \<lparr>argv = [''git'', ''clone'', url, repo_path, ''--progress''], cwd = None\<rparr>"

text \<open>Which command an invocation is, by its first two arguments.\<close>

definition is_clone :: "invocation \<Rightarrow> bool" where
  "is_clone i = (take 2 (argv i) = [''git'', ''clone''])"

definition is_fetch :: "invocation \<Rightarrow> bool" where
  "is_fetch i = (take 2 (argv i) = [''git'', ''fetch''])"

definition is_pull :: "invocation \<Rightarrow> bool" where
  "is_pull i = (take 2 (argv i) = [''git'', ''pull''])"

text \<open>The invocations (and the requests) a call made: what it added to the log.\<close>

definition new_invoked :: "'w st \<Rightarrow> 'w st \<Rightarrow> (invocation \<times> (string + proc)) list" where
  "new_invoked s s' = drop (length (invoked s)) (invoked s')"

definition new_requests :: "'w st \<Rightarrow> 'w st \<Rightarrow> (variables \<times> (exn + response)) list" where
  "new_requests s s' = drop (length (requests s)) (requests s')"

subsection \<open>\<^verbatim>\<open>print_summary\<close>\<close>

text \<open>Python's \<^verbatim>\<open>sub in s\<close> on strings.\<close>

fun starts_with :: "string \<Rightarrow> string \<Rightarrow> bool" where
  "starts_with s [] = True"
| "starts_with [] (c # sub) = False"
| "starts_with (x # s) (c # sub) = (x = c \<and> starts_with s sub)"

fun str_contains :: "string \<Rightarrow> string \<Rightarrow> bool" where
  "str_contains [] sub = (sub = [])"
| "str_contains (x # s) sub = (starts_with (x # s) sub \<or> str_contains s sub)"

text \<open>Lines 180-195. The function only prints; the record holds what it prints: the
  three counts and, when \<^verbatim>\<open>failed\<close> is not zero, one line per failure with
  \<^verbatim>\<open>r.get('error', 'Unknown error')\<close>.\<close>

record summary =
  cloned :: nat
  updated :: nat
  failed :: nat
  failures :: "(string \<times> string) list"

definition is_failure :: "sync_result \<Rightarrow> bool" where
  "is_failure r = (str_contains (res_status r) ''failed'' \<or> res_status r = ''error'')"

definition print_summary :: "sync_result list \<Rightarrow> summary" where
  "print_summary results =
     (let n_cloned = length (filter (\<lambda>r. res_status r = ''cloned'') results);
          n_updated = length (filter (\<lambda>r. res_status r = ''updated'') results);
          n_failed = length (filter is_failure results)
      in \<lparr>cloned = n_cloned, updated = n_updated, failed = n_failed,
          failures = (if n_failed \<noteq> 0
                      then map (\<lambda>r. (res_name r,
                                      case res_error r of None \<Rightarrow> ''Unknown error'' | Some e \<Rightarrow> e))
                             (filter is_failure results)
                      else [])\<rparr>)"

subsection \<open>\<^verbatim>\<open>run\<close>, \<^verbatim>\<open>main\<close> and the \<^verbatim>\<open>__main__\<close> guard\<close>

text \<open>
  \<^verbatim>\<open>asyncio.gather(*(process_repo(r) for r in repos))\<close> under
  \<^verbatim>\<open>asyncio.Semaphore(MAX_CONCURRENT_CLONES)\<close> is scheduled by the asyncio library, not by
  the program. The scheduler is a parameter: from the semaphore's value, the body of
  \<^verbatim>\<open>process_repo\<close>, the descriptors and the state to the list of results and the final
  state, or \<open>None\<close> when the gather never completes.
\<close>

type_synonym 'w gather =
  "int \<Rightarrow> (repo \<Rightarrow> 'w st \<Rightarrow> sync_result \<times> 'w st) \<Rightarrow> repo list \<Rightarrow> 'w st
     \<Rightarrow> (sync_result list \<times> 'w st) option"

text \<open>
  Lines 197-225. \<^verbatim>\<open>run\<close> returns \<^verbatim>\<open>None\<close> on every path that returns; the model
  returns what was printed as the summary, if one was. \<^verbatim>\<open>asyncio.Semaphore\<close> raises
  \<^verbatim>\<open>ValueError\<close> on a negative value.
\<close>

definition run ::
  "nat \<Rightarrow> 'w transport \<Rightarrow> 'w os \<Rightarrow> 'w gather \<Rightarrow> string \<Rightarrow> string \<Rightarrow> int \<Rightarrow> 'w st
     \<Rightarrow> (exn + summary option) option \<times> 'w st" where
  "run n post os gather token target_dir max_concurrent_clones s =
     (if token = ''YOUR_TOKEN_HERE'' then (Some (Inr None), s)
      else
        (case mkdir_p os (world s) target_dir of
           (Some msg, w1) \<Rightarrow> (Some (Inl (LibraryError msg)), s\<lparr>world := w1\<rparr>)
         | (None, w1) \<Rightarrow>
             (case fetch_all_repositories n post (s\<lparr>world := w1\<rparr>) of
                (None, s2) \<Rightarrow> (None, s2)
              | (Some (Inl e), s2) \<Rightarrow> (Some (Inl e), s2)
              | (Some (Inr repos), s2) \<Rightarrow>
                  if repos = [] then (Some (Inr None), s2)
                  else if max_concurrent_clones < 0
                  then (Some (Inl (LibraryError ''Semaphore initial value must be >= 0'')), s2)
                  else
                    (case gather max_concurrent_clones (clone_or_update_repo os target_dir)
                            repos s2 of
                       None \<Rightarrow> (None, s2)
                     | Some (results, s3) \<Rightarrow>
                         (Some (Inr (Some (print_summary results))), s3)))))"

text \<open>How \<^verbatim>\<open>asyncio.run(main())\<close> ends, when it ends: \<^verbatim>\<open>main\<close> returned, an
  \<^verbatim>\<open>Exception\<close> came out of it, or the user's interrupt arrived as
  \<^verbatim>\<open>KeyboardInterrupt\<close> (which is not an \<^verbatim>\<open>Exception\<close>).\<close>

datatype run_outcome =
  Returned
| RaisedException exn
| RaisedKeyboardInterrupt

text \<open>Lines 243-250, the \<^verbatim>\<open>__main__\<close> guard: the exit status of the process when the guard
  is executed. Only the \<^verbatim>\<open>except Exception\<close> handler calls \<^verbatim>\<open>sys.exit(1)\<close>; the
  \<^verbatim>\<open>except KeyboardInterrupt\<close> handler prints its notice and the script runs off its
  end, as it does when nothing was raised.\<close>

fun main_guard :: "run_outcome \<Rightarrow> nat" where
  "main_guard Returned = 0"
| "main_guard RaisedKeyboardInterrupt = 0"
| "main_guard (RaisedException e) = 1"

text \<open>
  Python compiles the whole file before it executes any statement of it, and the compiler
  refuses a function in which a name occurs, read or assigned, above a \<^verbatim>\<open>global\<close>
  declaration of that name (\<^verbatim>\<open>SyntaxError: name 'x' is used prior to global declaration\<close>).
  For that check a function body is the sequence of its statements, each either a
  \<^verbatim>\<open>global\<close> declaration or the list of the names that occur in it;
  \<open>prior_to_global\<close> gives the first name declared \<^verbatim>\<open>global\<close> below an occurrence, if
  there is one.
\<close>

datatype stmt =
  Names "string list"
| Global string

fun prior_to_global :: "string list \<Rightarrow> stmt list \<Rightarrow> string option" where
  "prior_to_global seen [] = None"
| "prior_to_global seen (Names xs # body) = prior_to_global (seen @ xs) body"
| "prior_to_global seen (Global x # body) =
     (if x \<in> set seen then Some x else prior_to_global seen body)"

text \<open>
  Lines 229-240, the body of \<^verbatim>\<open>main\<close>, statement by statement: the parser and its three
  \<^verbatim>\<open>add_argument\<close> calls (the third, line 232, has \<^verbatim>\<open>default=MAX_CONCURRENT_CLONES\<close>),
  \<^verbatim>\<open>parse_args\<close>, the token, \<^verbatim>\<open>global MAX_CONCURRENT_CLONES\<close> (line 236), the assignment
  to it, and the \<^verbatim>\<open>async with\<close> statement around \<^verbatim>\<open>cloner.run()\<close>.
\<close>

definition main_body :: "stmt list" where
  "main_body =
     [Names [''parser'', ''argparse''],
      Names [''parser''],
      Names [''parser'', ''TARGET_DIR''],
      Names [''parser'', ''int'', ''MAX_CONCURRENT_CLONES''],
      Names [''args'', ''parser''],
      Names [''token'', ''args'', ''GITHUB_TOKEN''],
      Global ''MAX_CONCURRENT_CLONES'',
      Names [''MAX_CONCURRENT_CLONES'', ''args''],
      Names [''GitHubCloner'', ''token'', ''args'', ''cloner'']]"

text \<open>
  The exit status of \<^verbatim>\<open>python github_cloner.py\<close>. When the compiler refuses the file the
  interpreter reports the \<^verbatim>\<open>SyntaxError\<close> and exits with status 1, and nothing of the
  file is executed; otherwise the guard decides, from how \<^verbatim>\<open>asyncio.run(main())\<close> ends.
\<close>

definition script :: "run_outcome \<Rightarrow> nat" where
  "script outcome =
     (case prior_to_global [] main_body of
        Some x \<Rightarrow> 1
      | None \<Rightarrow> main_guard outcome)"

section \<open>Vocabulary of the properties\<close>

text \<open>The exception with which \<open>graphql_query\<close> leaves on an outcome of the transport,
  if it leaves with one: lines 51-55 read off the outcome.\<close>

definition raised_by :: "exn + response \<Rightarrow> exn option" where
  "raised_by r =
     (case r of
        Inl e \<Rightarrow> Some e
      | Inr resp \<Rightarrow>
          if status resp \<noteq> 200 then Some (QueryFailed (status resp))
          else (case errors resp of Some es \<Rightarrow> Some (GraphQLErrors es) | None \<Rightarrow> None))"

text \<open>The exceptions that a sequence of exchanges gives rise to, in order.\<close>

fun raised_in :: "(variables \<times> (exn + response)) list \<Rightarrow> exn list" where
  "raised_in [] = []"
| "raised_in (x # xs) =
     (case raised_by (snd x) of None \<Rightarrow> raised_in xs | Some e \<Rightarrow> e # raised_in xs)"

text \<open>
  A paginated source of \<open>K\<close> pages, as the transport serves it to a reader that starts at
  cursor \<open>c\<close> in world \<open>w\<close> and always asks with the cursor of the page it just got:
  every request is answered with status 200 and no error list, the \<open>i\<close>-th answer holds
  the \<open>i\<close>-th page, every page but the last says \<^verbatim>\<open>hasNextPage\<close> and the last does
  not. \<open>serves_personal\<close> is about the viewer's own collection, asked for with
  \<^verbatim>\<open>repoCursor\<close>; \<open>serves_org\<close> about the collection of the first organization of
  the response, asked for with \<^verbatim>\<open>orgCursor\<close>.
\<close>

fun serves_personal :: "'w transport \<Rightarrow> 'w \<Rightarrow> string option \<Rightarrow> connection list \<Rightarrow> bool" where
  "serves_personal post w c [] = False"
| "serves_personal post w c (p # ps) =
     (case post w [(''repoCursor'', c)] of
        (Inl e, w') \<Rightarrow> False
      | (Inr resp, w') \<Rightarrow>
          status resp = 200 \<and> errors resp = None \<and>
          repositories (data_viewer resp) = p \<and>
          (if ps = [] then \<not> hasNextPage (page_info p)
           else hasNextPage (page_info p) \<and>
                serves_personal post w' (endCursor (page_info p)) ps))"

fun serves_org :: "'w transport \<Rightarrow> 'w \<Rightarrow> string option \<Rightarrow> connection list \<Rightarrow> bool" where
  "serves_org post w c [] = False"
| "serves_org post w c (p # ps) =
     (case post w [(''orgCursor'', c)] of
        (Inl e, w') \<Rightarrow> False
      | (Inr resp, w') \<Rightarrow>
          status resp = 200 \<and> errors resp = None \<and>
          (case organizations (data_viewer resp) of
             [] \<Rightarrow> False
           | org0 # _ \<Rightarrow> org_repositories org0 = p) \<and>
          (if ps = [] then \<not> hasNextPage (page_info p)
           else hasNextPage (page_info p) \<and>
                serves_org post w' (endCursor (page_info p)) ps))"

text \<open>The cursors a reader of the pages \<open>ps\<close> sends when it starts with \<open>c\<close>: \<open>c\<close>, then
  the end cursor of each page but the last.\<close>

definition cursors :: "string option \<Rightarrow> connection list \<Rightarrow> string option list" where
  "cursors c ps = c # map (\<lambda>p. endCursor (page_info p)) (butlast ps)"

text \<open>The exception a run ended with, if it ended with one.\<close>

definition err_of :: "(exn + 'a) option \<Rightarrow> exn option" where
  "err_of res = (case res of Some (Inl e) \<Rightarrow> Some e | _ \<Rightarrow> None)"

section \<open>Scenarios\<close>

text \<open>Concrete descriptors, servers and machines on which the properties below are
  evaluated.\<close>

definition mk_repo :: "string \<Rightarrow> string \<Rightarrow> bool \<Rightarrow> repo" where
  "mk_repo owner nm private =
     \<lparr>name = nm, nameWithOwner = owner @ ''/'' @ nm,
      sshUrl = ''git@forge:'' @ owner @ ''/'' @ nm @ ''.git'',
      isPrivate = private, owner_login = owner\<rparr>"

definition page :: "repo list \<Rightarrow> bool \<Rightarrow> string option \<Rightarrow> connection" where
  "page ns has_next cur =
     \<lparr>nodes = ns, page_info = \<lparr>hasNextPage = has_next, endCursor = cur\<rparr>\<rparr>"

text \<open>Which page a cursor asks for: the variable absent or null is the first page.\<close>

definition cursor_of :: "variables \<Rightarrow> string \<Rightarrow> string option" where
  "cursor_of vars key = (case map_of vars key of Some c \<Rightarrow> c | None \<Rightarrow> None)"

text \<open>
  A forge that answers like the query of \<^verbatim>\<open>fetch_all_repositories\<close> reads: the viewer
  \<open>me\<close> has two pages of own repositories (\<open>me/p1\<close>, then \<open>me/p2\<close> after cursor \<open>P1\<close>)
  and belongs to the organizations \<open>a\<close> (two pages: \<open>a/x\<close>, then \<open>a/y\<close> after cursor
  \<open>A1\<close>) and \<open>b\<close> (one page: \<open>b/x\<close>). Every response carries the viewer's page at
  \<^verbatim>\<open>$repoCursor\<close> and each organization's page at \<^verbatim>\<open>$orgCursor\<close>.
\<close>

definition forge_viewer :: "variables \<Rightarrow> viewer" where
  "forge_viewer vars =
     \<lparr>login = ''me'',
      repositories =
        (if cursor_of vars ''repoCursor'' = Some ''P1''
         then page [mk_repo ''me'' ''p2'' True] False (Some ''P2'')
         else page [mk_repo ''me'' ''p1'' False] True (Some ''P1'')),
      organizations =
        [\<lparr>org_login = ''a'',
          org_repositories =
            (if cursor_of vars ''orgCursor'' = Some ''A1''
             then page [mk_repo ''a'' ''y'' False] False (Some ''A2'')
             else page [mk_repo ''a'' ''x'' False] True (Some ''A1''))\<rparr>,
         \<lparr>org_login = ''b'',
          org_repositories = page [mk_repo ''b'' ''x'' False] False (Some ''B1'')\<rparr>]\<rparr>"

definition forge :: "'w transport" where
  "forge w vars = (Inr \<lparr>status = 200, errors = None, data_viewer = forge_viewer vars\<rparr>, w)"

text \<open>The same forge, answering 502 to the request for the second page of an
  organization.\<close>

definition forge_failing :: "'w transport" where
  "forge_failing w vars =
     (Inr \<lparr>status = (if cursor_of vars ''orgCursor'' = Some ''A1'' then 502 else 200),
           errors = None, data_viewer = forge_viewer vars\<rparr>, w)"

text \<open>The same forge, answering the second page of the viewer's repositories with an
  API-level error list.\<close>

definition forge_api_error :: "'w transport" where
  "forge_api_error w vars =
     (Inr \<lparr>status = 200,
           errors = (if cursor_of vars ''repoCursor'' = Some ''P1''
                     then Some [''rate limited''] else None),
           data_viewer = forge_viewer vars\<rparr>, w)"

text \<open>A forge with one page of everything, on which \<open>a/x\<close> is both a repository of the
  viewer and, with another \<^verbatim>\<open>isPrivate\<close>, a repository of the organization \<open>a\<close>.\<close>

definition overlap_viewer :: viewer where
  "overlap_viewer =
     \<lparr>login = ''me'',
      repositories = page [mk_repo ''a'' ''x'' False, mk_repo ''b'' ''x'' False] False None,
      organizations =
        [\<lparr>org_login = ''a'',
          org_repositories = page [mk_repo ''a'' ''x'' True] False None\<rparr>]\<rparr>"

definition forge_overlap :: "'w transport" where
  "forge_overlap w vars =
     (Inr \<lparr>status = 200, errors = None, data_viewer = overlap_viewer\<rparr>, w)"

text \<open>
  \<^verbatim>\<open>bytes.decode()\<close> on the byte strings of the scenarios: ASCII bytes are the text they
  spell, and the byte \<open>0xff\<close>, which no UTF-8 text contains, makes it raise.
\<close>

definition machine_decode :: "bytes \<Rightarrow> string + string" where
  "machine_decode b =
     (if list_all (\<lambda>c. of_char c < (128::nat)) b then Inr b
      else Inl ([CHR 0x27] @ ''utf-8' codec can't decode byte 0xff in position 0: invalid start byte''))"

text \<open>
  A machine whose world is the list of the paths that exist. \<^verbatim>\<open>git clone\<close> fails with
  exit code 128 on the URLs in \<open>bad_urls\<close> and otherwise creates the directory and its
  \<^verbatim>\<open>.git\<close>; \<^verbatim>\<open>git fetch\<close> and \<^verbatim>\<open>git pull\<close> exit with the given codes; with
  \<open>git_present\<close> false no process can be started. \<open>clone_err\<close> and \<open>pull_err\<close> are
  what a failing clone and the pull write to their error stream.
\<close>

definition machine_exec ::
  "bytes \<Rightarrow> bytes \<Rightarrow> bool \<Rightarrow> int \<Rightarrow> int \<Rightarrow> string list \<Rightarrow> string list \<Rightarrow> invocation
     \<Rightarrow> (string + proc) \<times> string list" where
  "machine_exec clone_err pull_err git_present fetch_rc pull_rc bad_urls w i =
     (if \<not> git_present then (Inl ''[Errno 2] No such file or directory: git'', w)
      else (case argv i of
         [g, c, url, p, f] \<Rightarrow>
           if url \<in> set bad_urls
           then (Inr \<lparr>returncode = 128, stdout = [], stderr = clone_err\<rparr>, w)
           else (Inr \<lparr>returncode = 0, stdout = [], stderr = ''Cloning''\<rparr>,
                 w @ [p, p @ ''/.git''])
       | [g, c, a] \<Rightarrow>
           (Inr \<lparr>returncode = pull_rc, stdout = [], stderr = pull_err\<rparr>, w)
       | _ \<Rightarrow>
           (Inr \<lparr>returncode = fetch_rc, stdout = [], stderr = ''fetch output''\<rparr>, w)))"

definition machine_writing ::
  "bytes \<Rightarrow> bytes \<Rightarrow> bool \<Rightarrow> int \<Rightarrow> int \<Rightarrow> string list \<Rightarrow> (string list) os" where
  "machine_writing clone_err pull_err git_present fetch_rc pull_rc bad_urls =
     \<lparr>path_div = (\<lambda>d n. d @ ''/'' @ n),
      path_exists = (\<lambda>w p. Inr (p \<in> set w)),
      decode = machine_decode,
      exec = machine_exec clone_err pull_err git_present fetch_rc pull_rc bad_urls,
      mkdir_p = (\<lambda>w p. (None, if p \<in> set w then w else w @ [p]))\<rparr>"

text \<open>The machine whose git writes readable messages, and the one whose failing clone and
  pull write the single byte \<open>0xff\<close>.\<close>

definition machine :: "bool \<Rightarrow> int \<Rightarrow> int \<Rightarrow> string list \<Rightarrow> (string list) os" where
  "machine = machine_writing ''fatal: repository not found'' ''fatal: not a fast-forward''"

definition garbling_machine :: "bool \<Rightarrow> int \<Rightarrow> int \<Rightarrow> string list \<Rightarrow> (string list) os" where
  "garbling_machine = machine_writing [CHR 0xFF] [CHR 0xFF]"

definition start :: "'w \<Rightarrow> 'w st" where
  "start w = \<lparr>world = w, username = None, requests = [], invoked = []\<rparr>"

text \<open>The operations run one after the other, in the order of the descriptors.\<close>

fun one_by_one ::
  "(repo \<Rightarrow> 'w st \<Rightarrow> sync_result \<times> 'w st) \<Rightarrow> repo list \<Rightarrow> 'w st \<Rightarrow> sync_result list \<times> 'w st" where
  "one_by_one f [] s = ([], s)"
| "one_by_one f (r # rs) s =
     (case f r s of (x, s1) \<Rightarrow> case one_by_one f rs s1 of (xs, s2) \<Rightarrow> (x # xs, s2))"

section \<open>Properties\<close>

subsection \<open>Deduplication\<close>

lemma dict_setitem_keys:
  "map fst (dict_setitem d k v) = (if k \<in> set (map fst d) then map fst d else map fst d @ [k])"
  by (induction d) (auto simp: rev_image_eqI)

lemma dict_setitem_distinct:
  "distinct (map fst d) \<Longrightarrow> distinct (map fst (dict_setitem d k v))"
  by (simp add: dict_setitem_keys)

lemma dict_setitem_map_of:
  "map_of (dict_setitem d k v) = (map_of d)(k \<mapsto> v)"
  by (induction d) (auto simp: fun_eq_iff)

lemma dict_setitem_set:
  "set (dict_setitem d k v) \<subseteq> insert (k, v) (set d)"
  by (induction d) (auto split: if_splits)

lemma unique_repos_snoc:
  "unique_repos (rs @ [r]) = dict_setitem (unique_repos rs) (nameWithOwner r) r"
  by (simp add: unique_repos_def)

lemma unique_repos_distinct: "distinct (map fst (unique_repos rs))"
  by (induction rs rule: rev_induct)
     (simp_all add: unique_repos_def dict_setitem_distinct)

text \<open>The dict maps a name to the last node of the pool that carries it.\<close>

lemma unique_repos_map_of:
  "map_of (unique_repos rs) n =
     (if filter (\<lambda>r. nameWithOwner r = n) rs = [] then None
      else Some (last (filter (\<lambda>r. nameWithOwner r = n) rs)))"
proof (induction rs rule: rev_induct)
  case Nil
  show ?case by (simp add: unique_repos_def)
next
  case (snoc r rs)
  show ?case
  proof (cases "nameWithOwner r = n")
    case True
    then show ?thesis
      by (simp add: unique_repos_snoc dict_setitem_map_of)
  next
    case False
    with snoc show ?thesis
      by (simp add: unique_repos_snoc dict_setitem_map_of)
  qed
qed

lemma unique_repos_keyed:
  "(k, r) \<in> set (unique_repos rs) \<Longrightarrow> k = nameWithOwner r"
proof (induction rs arbitrary: k r rule: rev_induct)
  case Nil
  then show ?case by (simp add: unique_repos_def)
next
  case (snoc x xs)
  from snoc.prems dict_setitem_set[of "unique_repos xs" "nameWithOwner x" x]
  have "(k, r) = (nameWithOwner x, x) \<or> (k, r) \<in> set (unique_repos xs)"
    by (auto simp: unique_repos_snoc)
  with snoc.IH show ?case by auto
qed

lemma deduplicate_names: "map nameWithOwner (deduplicate rs) = map fst (unique_repos rs)"
  unfolding deduplicate_def using unique_repos_keyed[of _ _ rs]
  by (auto simp: map_eq_conv)

lemma deduplicate_last:
  assumes "r \<in> set (deduplicate rs)"
  shows "filter (\<lambda>x. nameWithOwner x = nameWithOwner r) rs \<noteq> [] \<and>
         r = last (filter (\<lambda>x. nameWithOwner x = nameWithOwner r) rs)"
proof -
  from assms obtain k where kr: "(k, r) \<in> set (unique_repos rs)"
    by (auto simp: deduplicate_def)
  then have "k = nameWithOwner r" by (rule unique_repos_keyed)
  with kr have "map_of (unique_repos rs) (nameWithOwner r) = Some r"
    using unique_repos_distinct[of rs] by simp
  then show ?thesis
    by (auto simp: unique_repos_map_of split: if_splits)
qed

lemma deduplicate_name_set:
  "set (map nameWithOwner (deduplicate rs)) = set (map nameWithOwner rs)"
proof -
  have "set (map fst (unique_repos rs)) = dom (map_of (unique_repos rs))"
    by (simp add: dom_map_of_conv_image_fst)
  also have "\<dots> = {n. filter (\<lambda>r. nameWithOwner r = n) rs \<noteq> []}"
    by (auto simp: dom_def unique_repos_map_of split: if_splits)
  also have "\<dots> = set (map nameWithOwner rs)"
    by (auto simp: filter_empty_conv)
  finally show ?thesis by (simp add: deduplicate_names)
qed

text \<open>What \<open>deduplicate\<close> makes of any pool.\<close>

lemma deduplicate_properties:
  "distinct (map nameWithOwner (deduplicate pool)) \<and>
   set (map nameWithOwner (deduplicate pool)) = set (map nameWithOwner pool) \<and>
   (\<forall>r \<in> set (deduplicate pool).
      r = last (filter (\<lambda>x. nameWithOwner x = nameWithOwner r) pool))"
proof (intro conjI ballI)
  show "distinct (map nameWithOwner (deduplicate pool))"
    by (simp only: deduplicate_names unique_repos_distinct)
  show "set (map nameWithOwner (deduplicate pool)) = set (map nameWithOwner pool)"
    by (rule deduplicate_name_set)
  fix r assume "r \<in> set (deduplicate pool)"
  then show "r = last (filter (\<lambda>x. nameWithOwner x = nameWithOwner r) pool)"
    using deduplicate_last by blast
qed


text \<open>The pool that lines 94-122 accumulate is what step 2 returns, started on the viewer
  and the pool that step 1 returns; the list returned is \<open>deduplicate\<close> of it.\<close>

lemma fetch_all_repositories_pool:
  assumes "fetch_all_repositories n post s = (Some (Inr rs), s')"
  shows "\<exists>v pool0 s1 pool.
           fetch_personal n post None [] s = (Some (Inr (v, pool0)), s1) \<and>
           fetch_orgs n post (organizations v) pool0 s1 = (Some (Inr pool), s') \<and>
           rs = deduplicate pool"
  using assms
  by (auto simp: fetch_all_repositories_def split: prod.splits option.splits sum.splits)

text \<open>
  Claim C2. Whenever the enumeration returns a list, that list is \<open>deduplicate\<close> of the
  pool accumulated from all paginated sources (the pool of step 1, extended by step 2),
  lines 125-126. It has no two descriptors with the same \<^verbatim>\<open>nameWithOwner\<close>, it has a
  descriptor for every \<^verbatim>\<open>nameWithOwner\<close> of the pool and for no other, and each
  descriptor it holds is the last node of the pool with that \<^verbatim>\<open>nameWithOwner\<close>.
\<close>

theorem enumeration_one_per_fullName_last_wins:
  assumes "fetch_all_repositories n post s = (Some (Inr rs), s')"
  shows "\<exists>v pool0 s1 pool.
           fetch_personal n post None [] s = (Some (Inr (v, pool0)), s1) \<and>
           fetch_orgs n post (organizations v) pool0 s1 = (Some (Inr pool), s') \<and>
           rs = deduplicate pool \<and>
           distinct (map nameWithOwner rs) \<and>
           set (map nameWithOwner rs) = set (map nameWithOwner pool) \<and>
           (\<forall>r \<in> set rs. r = last (filter (\<lambda>x. nameWithOwner x = nameWithOwner r) pool))"
proof -
  from fetch_all_repositories_pool[OF assms] obtain v pool0 s1 pool where
    run: "fetch_personal n post None [] s = (Some (Inr (v, pool0)), s1)"
         "fetch_orgs n post (organizations v) pool0 s1 = (Some (Inr pool), s')"
     and rs: "rs = deduplicate pool"
    by blast
  from deduplicate_properties[of pool] rs have
    "distinct (map nameWithOwner rs)"
    "set (map nameWithOwner rs) = set (map nameWithOwner pool)"
    "\<forall>r \<in> set rs. r = last (filter (\<lambda>x. nameWithOwner x = nameWithOwner r) pool)"
    by simp_all
  with run rs show ?thesis by blast
qed

lemma forge_overlap_run:
  "fst (fetch_personal 3 forge_overlap None [] (start ()))
     = Some (Inr (overlap_viewer, [mk_repo ''a'' ''x'' False, mk_repo ''b'' ''x'' False]))"
  "fst (fetch_orgs 3 forge_overlap (organizations overlap_viewer)
          [mk_repo ''a'' ''x'' False, mk_repo ''b'' ''x'' False]
          (snd (fetch_personal 3 forge_overlap None [] (start ()))))
     = Some (Inr [mk_repo ''a'' ''x'' False, mk_repo ''b'' ''x'' False, mk_repo ''a'' ''x'' True])"
  "fst (fetch_all_repositories 3 forge_overlap (start ()))
     = Some (Inr [mk_repo ''a'' ''x'' True, mk_repo ''b'' ''x'' False])"
  by code_simp+

text \<open>On the forge where \<open>a/x\<close> comes first from the viewer's page and later, with another
  \<^verbatim>\<open>isPrivate\<close>, from the page of organization \<open>a\<close>: the pool is \<open>[a/x, b/x, a/x]\<close>, and
  in the list returned the later \<open>a/x\<close> stands in the place of the first.\<close>

theorem enumeration_one_per_fullName_last_wins_witness:
  "fst (fetch_personal 3 forge_overlap None [] (start ()))
     = Some (Inr (overlap_viewer, [mk_repo ''a'' ''x'' False, mk_repo ''b'' ''x'' False])) \<and>
   fst (fetch_orgs 3 forge_overlap (organizations overlap_viewer)
          [mk_repo ''a'' ''x'' False, mk_repo ''b'' ''x'' False]
          (snd (fetch_personal 3 forge_overlap None [] (start ()))))
     = Some (Inr [mk_repo ''a'' ''x'' False, mk_repo ''b'' ''x'' False, mk_repo ''a'' ''x'' True]) \<and>
   fst (fetch_all_repositories 3 forge_overlap (start ()))
     = Some (Inr [mk_repo ''a'' ''x'' True, mk_repo ''b'' ''x'' False]) \<and>
   deduplicate [mk_repo ''a'' ''x'' False, mk_repo ''b'' ''x'' False, mk_repo ''a'' ''x'' True]
     = [mk_repo ''a'' ''x'' True, mk_repo ''b'' ''x'' False]"
  using enumeration_one_per_fullName_last_wins[of 3 forge_overlap "start ()"
          "[mk_repo ''a'' ''x'' True, mk_repo ''b'' ''x'' False]"
          "snd (fetch_all_repositories 3 forge_overlap (start ()))"]
        forge_overlap_run
  by (simp add: deduplicate_def unique_repos_def mk_repo_def)

subsection \<open>The per-repository sync operation\<close>

lemma subprocess_exec_Inl:
  "exec os (world s) \<lparr>argv = args, cwd = dir\<rparr> = (Inl e, w') \<Longrightarrow>
   subprocess_exec os args dir s =
     (Inl e, s\<lparr>world := w', invoked := invoked s @ [(\<lparr>argv = args, cwd = dir\<rparr>, Inl e)]\<rparr>)"
  by (simp add: subprocess_exec_def)

lemma subprocess_exec_Inr:
  "exec os (world s) \<lparr>argv = args, cwd = dir\<rparr> = (Inr p, w') \<Longrightarrow>
   subprocess_exec os args dir s =
     (Inr p, s\<lparr>world := w', invoked := invoked s @ [(\<lparr>argv = args, cwd = dir\<rparr>, Inr p)]\<rparr>)"
  by (simp add: subprocess_exec_def)

lemma clone_path_raises:
  assumes "exec os (world s) (git_clone url p) = (Inl e, w1)"
  shows "clone_path os p url result s =
           (Inl (e, result),
            s\<lparr>world := w1, invoked := invoked s @ [(git_clone url p, Inl e)]\<rparr>)"
  using subprocess_exec_Inl[OF assms[unfolded git_clone_def]]
  by (simp add: clone_path_def git_clone_def)

lemma clone_path_exits:
  assumes "exec os (world s) (git_clone url p) = (Inr pc, w1)"
  shows "clone_path os p url result s =
           (if returncode pc = 0 then Inr (result\<lparr>res_status := ''cloned''\<rparr>)
            else (case decode os (stderr pc) of
                    Inl e \<Rightarrow> Inl (e, result\<lparr>res_status := ''clone_failed''\<rparr>)
                  | Inr text \<Rightarrow>
                      Inr (result\<lparr>res_status := ''clone_failed'', res_error := Some text\<rparr>)),
            s\<lparr>world := w1, invoked := invoked s @ [(git_clone url p, Inr pc)]\<rparr>)"
  using subprocess_exec_Inr[OF assms[unfolded git_clone_def]]
  by (simp add: clone_path_def git_clone_def Let_def split: sum.splits)

lemma update_path_fetch_raises:
  assumes "exec os (world s) (git_fetch p) = (Inl e, w1)"
  shows "update_path os p result s =
           (Inl (e, result),
            s\<lparr>world := w1, invoked := invoked s @ [(git_fetch p, Inl e)]\<rparr>)"
  using subprocess_exec_Inl[OF assms[unfolded git_fetch_def]]
  by (simp add: update_path_def git_fetch_def)

lemma update_path_pull_raises:
  assumes "exec os (world s) (git_fetch p) = (Inr pf, w1)"
      and "exec os w1 (git_pull p) = (Inl e, w2)"
  shows "update_path os p result s =
           (Inl (e, result),
            s\<lparr>world := w2,
              invoked := invoked s @ [(git_fetch p, Inr pf), (git_pull p, Inl e)]\<rparr>)"
proof -
  let ?s1 = "s\<lparr>world := w1, invoked := invoked s @ [(git_fetch p, Inr pf)]\<rparr>"
  have f: "subprocess_exec os [''git'', ''fetch'', ''--all'', ''--prune''] (Some p) s = (Inr pf, ?s1)"
    using subprocess_exec_Inr[OF assms(1)[unfolded git_fetch_def]] by (simp add: git_fetch_def)
  have "exec os (world ?s1) \<lparr>argv = [''git'', ''pull'', ''--ff-only''], cwd = Some p\<rparr> = (Inl e, w2)"
    using assms(2) by (simp add: git_pull_def)
  from subprocess_exec_Inl[OF this]
  have g: "subprocess_exec os [''git'', ''pull'', ''--ff-only''] (Some p) ?s1 =
             (Inl e, s\<lparr>world := w2,
                invoked := invoked s @ [(git_fetch p, Inr pf), (git_pull p, Inl e)]\<rparr>)"
    by (simp add: git_pull_def)
  show ?thesis by (simp add: update_path_def f g)
qed

lemma update_path_pull_exits:
  assumes "exec os (world s) (git_fetch p) = (Inr pf, w1)"
      and "exec os w1 (git_pull p) = (Inr pp, w2)"
  shows "update_path os p result s =
           (if returncode pp = 0 then Inr (result\<lparr>res_status := ''updated''\<rparr>)
            else (case decode os (stderr pp) of
                    Inl e \<Rightarrow> Inl (e, result\<lparr>res_status := ''update_failed''\<rparr>)
                  | Inr text \<Rightarrow>
                      Inr (result\<lparr>res_status := ''update_failed'', res_error := Some text\<rparr>)),
            s\<lparr>world := w2,
              invoked := invoked s @ [(git_fetch p, Inr pf), (git_pull p, Inr pp)]\<rparr>)"
proof -
  let ?s1 = "s\<lparr>world := w1, invoked := invoked s @ [(git_fetch p, Inr pf)]\<rparr>"
  have f: "subprocess_exec os [''git'', ''fetch'', ''--all'', ''--prune''] (Some p) s = (Inr pf, ?s1)"
    using subprocess_exec_Inr[OF assms(1)[unfolded git_fetch_def]] by (simp add: git_fetch_def)
  have "exec os (world ?s1) \<lparr>argv = [''git'', ''pull'', ''--ff-only''], cwd = Some p\<rparr> = (Inr pp, w2)"
    using assms(2) by (simp add: git_pull_def)
  from subprocess_exec_Inr[OF this]
  have g: "subprocess_exec os [''git'', ''pull'', ''--ff-only''] (Some p) ?s1 =
             (Inr pp, s\<lparr>world := w2,
                invoked := invoked s @ [(git_fetch p, Inr pf), (git_pull p, Inr pp)]\<rparr>)"
    by (simp add: git_pull_def)
  show ?thesis by (simp add: update_path_def f g Let_def split: sum.splits)
qed

lemma new_invoked_append [simp]:
  "new_invoked s (s\<lparr>world := w, invoked := invoked s @ xs\<rparr>) = xs"
  by (simp add: new_invoked_def)

lemma new_invoked_same [simp]: "new_invoked s s = []"
  by (simp add: new_invoked_def)


text \<open>Every way through \<open>clone_or_update_repo\<close>, with the result and the invocations
  made; \<open>p\<close> is the local path.\<close>

lemma clone_or_update_repo_cases [consumes 2, case_names check_raises fetch_raises pull_raises
    updated update_failed update_garbled clone_raises cloned clone_failed clone_garbled]:
  assumes run: "clone_or_update_repo os target_dir repo s = (r, s')"
      and p: "p = path_div os target_dir (name repo)"
  obtains
    e where
      "has_clone os (world s) p = Inl e"
      "r = \<lparr>res_name = nameWithOwner repo, res_status = ''error'', res_path = p,
            res_error = Some e\<rparr>"
      "new_invoked s s' = []"
  | e w1 where
      "has_clone os (world s) p = Inr True"
      "exec os (world s) (git_fetch p) = (Inl e, w1)"
      "r = \<lparr>res_name = nameWithOwner repo, res_status = ''error'', res_path = p,
            res_error = Some e\<rparr>"
      "new_invoked s s' = [(git_fetch p, Inl e)]"
  | pf e w1 w2 where
      "has_clone os (world s) p = Inr True"
      "exec os (world s) (git_fetch p) = (Inr pf, w1)"
      "exec os w1 (git_pull p) = (Inl e, w2)"
      "r = \<lparr>res_name = nameWithOwner repo, res_status = ''error'', res_path = p,
            res_error = Some e\<rparr>"
      "new_invoked s s' = [(git_fetch p, Inr pf), (git_pull p, Inl e)]"
  | pf pp w1 w2 where
      "has_clone os (world s) p = Inr True"
      "exec os (world s) (git_fetch p) = (Inr pf, w1)"
      "exec os w1 (git_pull p) = (Inr pp, w2)"
      "returncode pp = 0"
      "r = \<lparr>res_name = nameWithOwner repo, res_status = ''updated'', res_path = p,
            res_error = None\<rparr>"
      "new_invoked s s' = [(git_fetch p, Inr pf), (git_pull p, Inr pp)]"
  | pf pp w1 w2 tx where
      "has_clone os (world s) p = Inr True"
      "exec os (world s) (git_fetch p) = (Inr pf, w1)"
      "exec os w1 (git_pull p) = (Inr pp, w2)"
      "returncode pp \<noteq> 0" "decode os (stderr pp) = Inr tx"
      "r = \<lparr>res_name = nameWithOwner repo, res_status = ''update_failed'', res_path = p,
            res_error = Some tx\<rparr>"
      "new_invoked s s' = [(git_fetch p, Inr pf), (git_pull p, Inr pp)]"
  | pf pp w1 w2 e where
      "has_clone os (world s) p = Inr True"
      "exec os (world s) (git_fetch p) = (Inr pf, w1)"
      "exec os w1 (git_pull p) = (Inr pp, w2)"
      "returncode pp \<noteq> 0" "decode os (stderr pp) = Inl e"
      "r = \<lparr>res_name = nameWithOwner repo, res_status = ''error'', res_path = p,
            res_error = Some e\<rparr>"
      "new_invoked s s' = [(git_fetch p, Inr pf), (git_pull p, Inr pp)]"
  | e w1 where
      "has_clone os (world s) p = Inr False"
      "exec os (world s) (git_clone (sshUrl repo) p) = (Inl e, w1)"
      "r = \<lparr>res_name = nameWithOwner repo, res_status = ''error'', res_path = p,
            res_error = Some e\<rparr>"
      "new_invoked s s' = [(git_clone (sshUrl repo) p, Inl e)]"
  | pc w1 where
      "has_clone os (world s) p = Inr False"
      "exec os (world s) (git_clone (sshUrl repo) p) = (Inr pc, w1)"
      "returncode pc = 0"
      "r = \<lparr>res_name = nameWithOwner repo, res_status = ''cloned'', res_path = p,
            res_error = None\<rparr>"
      "new_invoked s s' = [(git_clone (sshUrl repo) p, Inr pc)]"
  | pc w1 tx where
      "has_clone os (world s) p = Inr False"
      "exec os (world s) (git_clone (sshUrl repo) p) = (Inr pc, w1)"
      "returncode pc \<noteq> 0" "decode os (stderr pc) = Inr tx"
      "r = \<lparr>res_name = nameWithOwner repo, res_status = ''clone_failed'', res_path = p,
            res_error = Some tx\<rparr>"
      "new_invoked s s' = [(git_clone (sshUrl repo) p, Inr pc)]"
  | pc w1 e where
      "has_clone os (world s) p = Inr False"
      "exec os (world s) (git_clone (sshUrl repo) p) = (Inr pc, w1)"
      "returncode pc \<noteq> 0" "decode os (stderr pc) = Inl e"
      "r = \<lparr>res_name = nameWithOwner repo, res_status = ''error'', res_path = p,
            res_error = Some e\<rparr>"
      "new_invoked s s' = [(git_clone (sshUrl repo) p, Inr pc)]"
proof -
  let ?res = "\<lparr>res_name = nameWithOwner repo, res_status = ''unknown'', res_path = p,
               res_error = None\<rparr>"
  have unfold: "clone_or_update_repo os target_dir repo s =
      (case try_block os p (sshUrl repo) ?res s of
         (Inr result', s') \<Rightarrow> (result', s')
       | (Inl (e, result'), s') \<Rightarrow>
           (result'\<lparr>res_status := ''error'', res_error := Some e\<rparr>, s'))"
    by (simp add: clone_or_update_repo_def Let_def p)
  show thesis
  proof (cases "has_clone os (world s) p")
    case (Inl e)
    from run show ?thesis
      unfolding unfold by (intro that(1)[OF Inl]) (auto simp: try_block_def Inl)
  next
    case (Inr yes)
    show ?thesis
    proof (cases yes)
      case True
      with Inr have hc: "has_clone os (world s) p = Inr True" by simp
      have tb: "try_block os p (sshUrl repo) ?res s = update_path os p ?res s"
        by (simp add: try_block_def hc)
      obtain o1 w1 where f: "exec os (world s) (git_fetch p) = (o1, w1)"
        by (cases "exec os (world s) (git_fetch p)")
      show ?thesis
      proof (cases o1)
        case (Inl e)
        with f have f': "exec os (world s) (git_fetch p) = (Inl e, w1)" by simp
        from run show ?thesis
          unfolding unfold tb update_path_fetch_raises[OF f']
          by (intro that(2)[OF hc f']) auto
      next
        case (Inr pf)
        with f have f': "exec os (world s) (git_fetch p) = (Inr pf, w1)" by simp
        obtain o2 w2 where g: "exec os w1 (git_pull p) = (o2, w2)"
          by (cases "exec os w1 (git_pull p)")
        show ?thesis
        proof (cases o2)
          case (Inl e)
          with g have g': "exec os w1 (git_pull p) = (Inl e, w2)" by simp
          from run show ?thesis
            unfolding unfold tb update_path_pull_raises[OF f' g']
            by (intro that(3)[OF hc f' g']) auto
        next
          case (Inr pp)
          with g have g': "exec os w1 (git_pull p) = (Inr pp, w2)" by simp
          show ?thesis
          proof (cases "returncode pp = 0")
            case True
            from run show ?thesis
              unfolding unfold tb update_path_pull_exits[OF f' g']
              by (intro that(4)[OF hc f' g' True]) (auto simp: True)
          next
            case False
            show ?thesis
            proof (cases "decode os (stderr pp)")
              case (Inl e)
              from run show ?thesis
                unfolding unfold tb update_path_pull_exits[OF f' g']
                by (intro that(6)[OF hc f' g' False Inl]) (auto simp: False Inl)
            next
              case (Inr tx)
              from run show ?thesis
                unfolding unfold tb update_path_pull_exits[OF f' g']
                by (intro that(5)[OF hc f' g' False Inr]) (auto simp: False Inr)
            qed
          qed
        qed
      qed
    next
      case False
      with Inr have hc: "has_clone os (world s) p = Inr False" by simp
      have tb: "try_block os p (sshUrl repo) ?res s = clone_path os p (sshUrl repo) ?res s"
        by (simp add: try_block_def hc)
      obtain o1 w1 where c: "exec os (world s) (git_clone (sshUrl repo) p) = (o1, w1)"
        by (cases "exec os (world s) (git_clone (sshUrl repo) p)")
      show ?thesis
      proof (cases o1)
        case (Inl e)
        with c have c': "exec os (world s) (git_clone (sshUrl repo) p) = (Inl e, w1)" by simp
        from run show ?thesis
          unfolding unfold tb clone_path_raises[OF c']
          by (intro that(7)[OF hc c']) auto
      next
        case (Inr pc)
        with c have c': "exec os (world s) (git_clone (sshUrl repo) p) = (Inr pc, w1)" by simp
        show ?thesis
        proof (cases "returncode pc = 0")
          case True
          from run show ?thesis
            unfolding unfold tb clone_path_exits[OF c']
            by (intro that(8)[OF hc c' True]) (auto simp: True)
        next
          case False
          show ?thesis
          proof (cases "decode os (stderr pc)")
            case (Inl e)
            from run show ?thesis
              unfolding unfold tb clone_path_exits[OF c']
              by (intro that(10)[OF hc c' False Inl]) (auto simp: False Inl)
          next
            case (Inr tx)
            from run show ?thesis
              unfolding unfold tb clone_path_exits[OF c']
              by (intro that(9)[OF hc c' False Inr]) (auto simp: False Inr)
          qed
        qed
      qed
    qed
  qed
qed


lemma git_kinds [simp]:
  "\<not> is_clone (git_fetch p)" "\<not> is_clone (git_pull p)" "is_clone (git_clone u p)"
  "is_fetch (git_fetch p)" "\<not> is_fetch (git_pull p)" "\<not> is_fetch (git_clone u p)"
  "\<not> is_pull (git_fetch p)" "is_pull (git_pull p)" "\<not> is_pull (git_clone u p)"
  by (simp_all add: is_clone_def is_fetch_def is_pull_def git_fetch_def git_pull_def git_clone_def)

lemma has_clone_present:
  "path_exists os w p = Inr True \<Longrightarrow> path_exists os w (path_div os p ''.git'') = Inr True \<Longrightarrow>
   has_clone os w p = Inr True"
  by (simp add: has_clone_def)

lemma has_clone_absent:
  "path_exists os w p = Inr False \<Longrightarrow> has_clone os w p = Inr False"
  by (simp add: has_clone_def)

text \<open>
  Claim C4. \<open>clone_or_update_repo\<close> always returns a result (it is a total function into
  results: the handler of its \<^verbatim>\<open>try\<close> catches what the process layer raises). The
  status of the result is one of \<^verbatim>\<open>cloned\<close>, \<^verbatim>\<open>updated\<close>, \<^verbatim>\<open>clone_failed\<close>,
  \<^verbatim>\<open>update_failed\<close>, \<^verbatim>\<open>error\<close>; the result has an \<^verbatim>\<open>error\<close> entry exactly when the
  status is one of the three failure variants; and whenever an invocation the call made
  raised an exception with message \<open>msg\<close>, the status is \<^verbatim>\<open>error\<close> and the \<^verbatim>\<open>error\<close>
  entry is \<open>msg\<close>.
\<close>

theorem sync_never_raises_status_closed:
  assumes "clone_or_update_repo os target_dir repo s = (r, s')"
  shows "res_status r \<in> {''cloned'', ''updated'', ''clone_failed'', ''update_failed'', ''error''} \<and>
         (res_error r \<noteq> None \<longleftrightarrow>
            res_status r \<in> {''clone_failed'', ''update_failed'', ''error''}) \<and>
         (\<forall>x \<in> set (new_invoked s s'). \<forall>msg. snd x = Inl msg \<longrightarrow>
            res_status r = ''error'' \<and> res_error r = Some msg)"
  using assms refl
  by (cases rule: clone_or_update_repo_cases) simp_all

text \<open>
  Claim C5, amended. When the checks of the local path and of its \<^verbatim>\<open>.git\<close> both answer
  true, the first command invoked is the fetch in that directory and no invocation of the
  call is a clone. When the check of the local path answers false, the only invocation is
  the clone of the descriptor's URL into the local path and none is a fetch or a pull;
  when the clone process ran to its end, the status is \<^verbatim>\<open>cloned\<close> with no error detail
  on exit code 0, and on another exit code, when the captured error stream decodes to a
  text, the status is \<^verbatim>\<open>clone_failed\<close> with that text as error detail.
\<close>

theorem sync_branch_selection:
  assumes "clone_or_update_repo os target_dir repo s = (r, s')"
  shows "(path_exists os (world s) (path_div os target_dir (name repo)) = Inr True \<and>
          path_exists os (world s) (path_div os (path_div os target_dir (name repo)) ''.git'')
            = Inr True
          \<longrightarrow> fst (hd (new_invoked s s')) = git_fetch (path_div os target_dir (name repo)) \<and>
              (\<forall>x \<in> set (new_invoked s s'). \<not> is_clone (fst x))) \<and>
         (path_exists os (world s) (path_div os target_dir (name repo)) = Inr False
          \<longrightarrow> map fst (new_invoked s s')
                = [git_clone (sshUrl repo) (path_div os target_dir (name repo))] \<and>
              (\<forall>x \<in> set (new_invoked s s'). \<not> is_fetch (fst x) \<and> \<not> is_pull (fst x)) \<and>
              (\<forall>pc. snd (hd (new_invoked s s')) = Inr pc \<longrightarrow>
                 (returncode pc = 0 \<longrightarrow> res_status r = ''cloned'' \<and> res_error r = None) \<and>
                 (\<forall>tx. returncode pc \<noteq> 0 \<and> decode os (stderr pc) = Inr tx \<longrightarrow>
                    res_status r = ''clone_failed'' \<and> res_error r = Some tx)))"
proof (intro conjI impI)
  assume "path_exists os (world s) (path_div os target_dir (name repo)) = Inr True \<and>
          path_exists os (world s) (path_div os (path_div os target_dir (name repo)) ''.git'')
            = Inr True"
  then have hc: "has_clone os (world s) (path_div os target_dir (name repo)) = Inr True"
    by (simp add: has_clone_present)
  from assms refl show "fst (hd (new_invoked s s')) = git_fetch (path_div os target_dir (name repo))"
    by (cases rule: clone_or_update_repo_cases) (simp_all add: hc)
  from assms refl show "\<forall>x \<in> set (new_invoked s s'). \<not> is_clone (fst x)"
    by (cases rule: clone_or_update_repo_cases) (simp_all add: hc)
next
  assume "path_exists os (world s) (path_div os target_dir (name repo)) = Inr False"
  then have hc: "has_clone os (world s) (path_div os target_dir (name repo)) = Inr False"
    by (simp add: has_clone_absent)
  from assms refl show "map fst (new_invoked s s')
                = [git_clone (sshUrl repo) (path_div os target_dir (name repo))]"
    by (cases rule: clone_or_update_repo_cases) (simp_all add: hc)
  from assms refl show "\<forall>x \<in> set (new_invoked s s'). \<not> is_fetch (fst x) \<and> \<not> is_pull (fst x)"
    by (cases rule: clone_or_update_repo_cases) (simp_all add: hc)
  from assms refl show "\<forall>pc. snd (hd (new_invoked s s')) = Inr pc \<longrightarrow>
                 (returncode pc = 0 \<longrightarrow> res_status r = ''cloned'' \<and> res_error r = None) \<and>
                 (\<forall>tx. returncode pc \<noteq> 0 \<and> decode os (stderr pc) = Inr tx \<longrightarrow>
                    res_status r = ''clone_failed'' \<and> res_error r = Some tx)"
    by (cases rule: clone_or_update_repo_cases) (simp_all add: hc)
qed

text \<open>
  Claim C6, amended. On the update path, when the fetch process ran to its end with
  whatever exit code and the pull process ran to its end, the result is decided by the
  pull alone: status \<^verbatim>\<open>updated\<close> without error detail when the pull's exit code is 0;
  otherwise, when the pull's captured error stream decodes to a text, status
  \<^verbatim>\<open>update_failed\<close> with that text as error detail. The fetch's process result \<open>pf\<close>
  does not occur in the result.
\<close>

theorem update_status_from_pull_only:
  assumes "path_exists os (world s) (path_div os target_dir (name repo)) = Inr True"
      and "path_exists os (world s) (path_div os (path_div os target_dir (name repo)) ''.git'')
             = Inr True"
      and "exec os (world s) (git_fetch (path_div os target_dir (name repo))) = (Inr pf, w1)"
      and "exec os w1 (git_pull (path_div os target_dir (name repo))) = (Inr pp, w2)"
      and "returncode pp \<noteq> 0 \<longrightarrow> decode os (stderr pp) = Inr tx"
  shows "fst (clone_or_update_repo os target_dir repo s) =
           \<lparr>res_name = nameWithOwner repo,
            res_status = (if returncode pp = 0 then ''updated'' else ''update_failed''),
            res_path = path_div os target_dir (name repo),
            res_error = (if returncode pp = 0 then None else Some tx)\<rparr>"
proof -
  obtain r s' where run: "clone_or_update_repo os target_dir repo s = (r, s')"
    by (cases "clone_or_update_repo os target_dir repo s")
  have hc: "has_clone os (world s) (path_div os target_dir (name repo)) = Inr True"
    using assms(1,2) by (rule has_clone_present)
  from run refl show ?thesis
    using assms(3-5) by (cases rule: clone_or_update_repo_cases) (simp_all add: run hc)
qed

lemma clone_or_update_repo_path:
  "res_path (fst (clone_or_update_repo os target_dir repo s)) = path_div os target_dir (name repo)"
proof -
  obtain r s' where run: "clone_or_update_repo os target_dir repo s = (r, s')"
    by (cases "clone_or_update_repo os target_dir repo s")
  from run refl show ?thesis
    by (cases rule: clone_or_update_repo_cases) (simp_all add: run)
qed

text \<open>
  Claim C10. The path of the result is \<^verbatim>\<open>target_dir / name\<close>, whatever the state and
  the other fields of the descriptor; two descriptors with the same \<^verbatim>\<open>name\<close> are
  therefore synchronised into the same local path, also when their \<^verbatim>\<open>nameWithOwner\<close>
  differ.
\<close>

theorem local_path_ignores_owner:
  assumes "name r1 = name r2"
  shows "res_path (fst (clone_or_update_repo os target_dir r1 s1)) = path_div os target_dir (name r1) \<and>
         res_path (fst (clone_or_update_repo os target_dir r2 s2)) =
         res_path (fst (clone_or_update_repo os target_dir r1 s1))"
  using assms by (simp add: clone_or_update_repo_path)


lemmas machine_eval =
  clone_or_update_repo_def try_block_def has_clone_def update_path_def clone_path_def
  subprocess_exec_def machine_def garbling_machine_def machine_writing_def machine_exec_def
  machine_decode_def mk_repo_def start_def new_invoked_def git_clone_def git_fetch_def
  git_pull_def Let_def

text \<open>On a machine without the executable the clone cannot be started: the one invocation
  raises, and the result carries its message under status \<^verbatim>\<open>error\<close>.\<close>

theorem sync_never_raises_status_closed_witness:
  "new_invoked (start [])
     (snd (clone_or_update_repo (machine False 0 0 []) ''/t'' (mk_repo ''a'' ''x'' False) (start [])))
     = [(git_clone ''git@forge:a/x.git'' ''/t/x'',
         Inl ''[Errno 2] No such file or directory: git'')] \<and>
   res_status
     (fst (clone_or_update_repo (machine False 0 0 []) ''/t'' (mk_repo ''a'' ''x'' False) (start [])))
     = ''error'' \<and>
   res_error
     (fst (clone_or_update_repo (machine False 0 0 []) ''/t'' (mk_repo ''a'' ''x'' False) (start [])))
     = Some ''[Errno 2] No such file or directory: git''"
  using sync_never_raises_status_closed[of "machine False 0 0 []" "''/t''" "mk_repo ''a'' ''x'' False" "start []"
      "fst (clone_or_update_repo (machine False 0 0 []) ''/t'' (mk_repo ''a'' ''x'' False) (start []))"
      "snd (clone_or_update_repo (machine False 0 0 []) ''/t'' (mk_repo ''a'' ''x'' False) (start []))"]
  by (simp add: machine_eval)

text \<open>A missing path whose clone exits with 128 and a readable message, and an existing
  clone that is fetched and pulled.\<close>

theorem sync_branch_selection_witness:
  "path_exists (machine True 0 0 [''git@forge:b/x.git'']) [''/t''] ''/t/x'' = Inr False \<and>
   map fst (new_invoked (start [''/t''])
     (snd (clone_or_update_repo (machine True 0 0 [''git@forge:b/x.git'']) ''/t''
             (mk_repo ''b'' ''x'' False) (start [''/t'']))))
     = [git_clone ''git@forge:b/x.git'' ''/t/x''] \<and>
   fst (clone_or_update_repo (machine True 0 0 [''git@forge:b/x.git'']) ''/t''
          (mk_repo ''b'' ''x'' False) (start [''/t'']))
     = \<lparr>res_name = ''b/x'', res_status = ''clone_failed'', res_path = ''/t/x'',
        res_error = Some ''fatal: repository not found''\<rparr> \<and>
   path_exists (machine True 0 0 []) [''/t'', ''/t/x'', ''/t/x/.git''] ''/t/x'' = Inr True \<and>
   path_exists (machine True 0 0 []) [''/t'', ''/t/x'', ''/t/x/.git''] ''/t/x/.git'' = Inr True \<and>
   map fst (new_invoked (start [''/t'', ''/t/x'', ''/t/x/.git''])
     (snd (clone_or_update_repo (machine True 0 0 []) ''/t''
             (mk_repo ''a'' ''x'' False) (start [''/t'', ''/t/x'', ''/t/x/.git'']))))
     = [git_fetch ''/t/x'', git_pull ''/t/x''] \<and>
   res_status (fst (clone_or_update_repo (machine True 0 0 []) ''/t''
             (mk_repo ''a'' ''x'' False) (start [''/t'', ''/t/x'', ''/t/x/.git''])))
     = ''updated''"
  using sync_branch_selection[of "machine True 0 0 [''git@forge:b/x.git'']" "''/t''"
      "mk_repo ''b'' ''x'' False" "start [''/t'']"
      "fst (clone_or_update_repo (machine True 0 0 [''git@forge:b/x.git'']) ''/t''
              (mk_repo ''b'' ''x'' False) (start [''/t'']))"
      "snd (clone_or_update_repo (machine True 0 0 [''git@forge:b/x.git'']) ''/t''
              (mk_repo ''b'' ''x'' False) (start [''/t'']))"]
    sync_branch_selection[of "machine True 0 0 []" "''/t''" "mk_repo ''a'' ''x'' False"
      "start [''/t'', ''/t/x'', ''/t/x/.git'']"
      "fst (clone_or_update_repo (machine True 0 0 []) ''/t''
              (mk_repo ''a'' ''x'' False) (start [''/t'', ''/t/x'', ''/t/x/.git'']))"
      "snd (clone_or_update_repo (machine True 0 0 []) ''/t''
              (mk_repo ''a'' ''x'' False) (start [''/t'', ''/t/x'', ''/t/x/.git'']))"]
  by (simp add: machine_eval)

text \<open>Claim C5 as stated gives \<^verbatim>\<open>clone_failed\<close> to every clone that exits with another
  code than 0. A clone that exits with 128 and writes the byte \<open>0xff\<close> to its error
  stream: \<^verbatim>\<open>stderr.decode()\<close> raises inside the \<^verbatim>\<open>try\<close>, and the status is \<^verbatim>\<open>error\<close>.\<close>

theorem undecodable_clone_stderr_gives_error:
  "path_exists (garbling_machine True 0 0 [''git@forge:b/x.git'']) [''/t''] ''/t/x'' = Inr False \<and>
   new_invoked (start [''/t''])
     (snd (clone_or_update_repo (garbling_machine True 0 0 [''git@forge:b/x.git'']) ''/t''
             (mk_repo ''b'' ''x'' False) (start [''/t''])))
     = [(git_clone ''git@forge:b/x.git'' ''/t/x'',
         Inr \<lparr>returncode = 128, stdout = [], stderr = [CHR 0xFF]\<rparr>)] \<and>
   res_status (fst (clone_or_update_repo (garbling_machine True 0 0 [''git@forge:b/x.git'']) ''/t''
          (mk_repo ''b'' ''x'' False) (start [''/t''])))
     = ''error'' \<and>
   res_status (fst (clone_or_update_repo (garbling_machine True 0 0 [''git@forge:b/x.git'']) ''/t''
          (mk_repo ''b'' ''x'' False) (start [''/t''])))
     \<noteq> ''clone_failed''"
  by (simp add: machine_eval)

text \<open>A fetch that exits with 1 before a pull that exits with 0, and a fetch that exits
  with 0 before a pull that exits with 1.\<close>

theorem update_status_from_pull_only_witness:
  "fst (clone_or_update_repo (machine True 1 0 []) ''/t'' (mk_repo ''a'' ''x'' False)
          (start [''/t'', ''/t/x'', ''/t/x/.git'']))
     = \<lparr>res_name = ''a/x'', res_status = ''updated'', res_path = ''/t/x'', res_error = None\<rparr> \<and>
   fst (clone_or_update_repo (machine True 0 1 []) ''/t'' (mk_repo ''a'' ''x'' False)
          (start [''/t'', ''/t/x'', ''/t/x/.git'']))
     = \<lparr>res_name = ''a/x'', res_status = ''update_failed'', res_path = ''/t/x'',
        res_error = Some ''fatal: not a fast-forward''\<rparr>"
  using update_status_from_pull_only[of "machine True 1 0 []" "start [''/t'', ''/t/x'', ''/t/x/.git'']" "''/t''"
             "mk_repo ''a'' ''x'' False"
             "\<lparr>returncode = 1, stdout = [], stderr = ''fetch output''\<rparr>"
             "[''/t'', ''/t/x'', ''/t/x/.git'']"
             "\<lparr>returncode = 0, stdout = [], stderr = ''fatal: not a fast-forward''\<rparr>"
             "[''/t'', ''/t/x'', ''/t/x/.git'']" "[]"]
        update_status_from_pull_only[of "machine True 0 1 []" "start [''/t'', ''/t/x'', ''/t/x/.git'']" "''/t''"
             "mk_repo ''a'' ''x'' False"
             "\<lparr>returncode = 0, stdout = [], stderr = ''fetch output''\<rparr>"
             "[''/t'', ''/t/x'', ''/t/x/.git'']"
             "\<lparr>returncode = 1, stdout = [], stderr = ''fatal: not a fast-forward''\<rparr>"
             "[''/t'', ''/t/x'', ''/t/x/.git'']" "''fatal: not a fast-forward''"]
  by (simp add: machine_def machine_writing_def machine_exec_def machine_decode_def mk_repo_def
        start_def git_fetch_def git_pull_def)

text \<open>Claim C6 as stated gives \<^verbatim>\<open>update_failed\<close> to every pull that exits with another
  code than 0. A pull that exits with 1 and writes the byte \<open>0xff\<close> to its error stream:
  \<^verbatim>\<open>stderr.decode()\<close> raises inside the \<^verbatim>\<open>try\<close>, and the status is \<^verbatim>\<open>error\<close>.\<close>

theorem undecodable_pull_stderr_gives_error:
  "path_exists (garbling_machine True 0 1 []) [''/t'', ''/t/x'', ''/t/x/.git''] ''/t/x'' = Inr True \<and>
   path_exists (garbling_machine True 0 1 []) [''/t'', ''/t/x'', ''/t/x/.git''] ''/t/x/.git''
     = Inr True \<and>
   new_invoked (start [''/t'', ''/t/x'', ''/t/x/.git''])
     (snd (clone_or_update_repo (garbling_machine True 0 1 []) ''/t''
             (mk_repo ''a'' ''x'' False) (start [''/t'', ''/t/x'', ''/t/x/.git''])))
     = [(git_fetch ''/t/x'', Inr \<lparr>returncode = 0, stdout = [], stderr = ''fetch output''\<rparr>),
        (git_pull ''/t/x'', Inr \<lparr>returncode = 1, stdout = [], stderr = [CHR 0xFF]\<rparr>)] \<and>
   res_status (fst (clone_or_update_repo (garbling_machine True 0 1 []) ''/t''
          (mk_repo ''a'' ''x'' False) (start [''/t'', ''/t/x'', ''/t/x/.git''])))
     = ''error'' \<and>
   res_status (fst (clone_or_update_repo (garbling_machine True 0 1 []) ''/t''
          (mk_repo ''a'' ''x'' False) (start [''/t'', ''/t/x'', ''/t/x/.git''])))
     \<noteq> ''update_failed''"
  by (simp add: machine_eval)

text \<open>\<open>a/x\<close> and \<open>b/x\<close> both go to \<open>/t/x\<close>; synchronised one after the other on an
  empty target, the first is cloned and the second is then pulled inside the first's
  clone.\<close>

theorem local_path_ignores_owner_witness:
  "name (mk_repo ''a'' ''x'' False) = name (mk_repo ''b'' ''x'' False) \<and>
   nameWithOwner (mk_repo ''a'' ''x'' False) \<noteq> nameWithOwner (mk_repo ''b'' ''x'' False) \<and>
   res_path (fst (clone_or_update_repo (machine True 0 0 []) ''/t'' (mk_repo ''a'' ''x'' False)
                    (start [''/t''])))
   = ''/t/x'' \<and>
   res_path (fst (clone_or_update_repo (machine True 0 0 []) ''/t'' (mk_repo ''b'' ''x'' False)
                    (start [''/t''])))
   = ''/t/x'' \<and>
   map res_status (fst (one_by_one (clone_or_update_repo (machine True 0 0 []) ''/t'')
                          [mk_repo ''a'' ''x'' False, mk_repo ''b'' ''x'' False] (start [''/t''])))
   = [''cloned'', ''updated'']"
  using local_path_ignores_owner[of "mk_repo ''a'' ''x'' False" "mk_repo ''b'' ''x'' False" "machine True 0 0 []" "''/t''"
          "start [''/t'']" "start [''/t'']"]
  by (simp add: machine_eval)

subsection \<open>The requests of the enumeration\<close>

lemma raised_in_append: "raised_in (xs @ ys) = raised_in xs @ raised_in ys"
  by (induction xs) (auto split: option.splits)

lemma raised_in_mem:
  "x \<in> set xs \<Longrightarrow> raised_by (snd x) = Some e \<Longrightarrow> e \<in> set (raised_in xs)"
  by (induction xs) (auto split: option.splits)

text \<open>One query: one exchange more in the log, and the outcome read off it.\<close>

lemma graphql_query_exchange:
  assumes "graphql_query post vars s = (r, s')"
  shows "\<exists>x. requests s' = requests s @ [(vars, x)] \<and> post (world s) vars = (x, world s') \<and>
             username s' = username s \<and>
             (case r of Inl e \<Rightarrow> raised_by x = Some e
                      | Inr v \<Rightarrow> raised_by x = None \<and> (\<exists>resp. x = Inr resp \<and> v = data_viewer resp))"
  using assms
  by (auto simp: graphql_query_def raised_by_def Let_def
           split: prod.splits sum.splits if_splits option.splits)

lemma set_username_requests [simp]: "requests (set_username v s) = requests s"
  by (simp add: set_username_def)

lemma set_username_world [simp]: "world (set_username v s) = world s"
  by (simp add: set_username_def)

lemma fetch_personal_raised:
  "fetch_personal n post c all_repos s = (res, s') \<Longrightarrow>
   \<exists>new. requests s' = requests s @ new \<and> raised_in new = (case err_of res of Some e \<Rightarrow> [e] | None \<Rightarrow> [])"
proof (induction n arbitrary: c all_repos s)
  case 0
  then show ?case by (simp add: err_of_def)
next
  case (Suc n)
  obtain r s1 where q: "graphql_query post [(''repoCursor'', c)] s = (r, s1)"
    by (cases "graphql_query post [(''repoCursor'', c)] s")
  from graphql_query_exchange[OF q] obtain x where
    x: "requests s1 = requests s @ [([(''repoCursor'', c)], x)]"
       "case r of Inl e \<Rightarrow> raised_by x = Some e | Inr v \<Rightarrow> raised_by x = None"
    by (cases r) auto
  show ?case
  proof (cases r)
    case (Inl e)
    with Suc.prems q x show ?thesis by (auto simp: err_of_def)
  next
    case (Inr v)
    show ?thesis
    proof (cases "hasNextPage (page_info (repositories v))")
      case False
      with Suc.prems q x Inr show ?thesis by (auto simp: err_of_def Let_def)
    next
      case True
      with Suc.prems q Inr
      have "fetch_personal n post (endCursor (page_info (repositories v)))
              (all_repos @ nodes (repositories v)) (set_username v s1) = (res, s')"
        by (simp add: Let_def)
      from Suc.IH[OF this] obtain new where
        "requests s' = requests (set_username v s1) @ new"
        "raised_in new = (case err_of res of Some e \<Rightarrow> [e] | None \<Rightarrow> [])"
        by blast
      with x Inr show ?thesis by (auto simp: raised_in_append)
    qed
  qed
qed

lemma fetch_org_pages_raised:
  "fetch_org_pages n post c all_repos s = (res, s') \<Longrightarrow>
   \<exists>new. requests s' = requests s @ new \<and> raised_in new = (case err_of res of Some e \<Rightarrow> [e] | None \<Rightarrow> [])"
proof (induction n arbitrary: c all_repos s)
  case 0
  then show ?case by (simp add: err_of_def)
next
  case (Suc n)
  obtain r s1 where q: "graphql_query post [(''orgCursor'', c)] s = (r, s1)"
    by (cases "graphql_query post [(''orgCursor'', c)] s")
  from graphql_query_exchange[OF q] obtain x where
    x: "requests s1 = requests s @ [([(''orgCursor'', c)], x)]"
       "case r of Inl e \<Rightarrow> raised_by x = Some e | Inr v \<Rightarrow> raised_by x = None"
    by (cases r) auto
  show ?case
  proof (cases r)
    case (Inl e)
    with Suc.prems q x show ?thesis by (auto simp: err_of_def)
  next
    case (Inr v)
    show ?thesis
    proof (cases "organizations v")
      case Nil
      with Suc.prems q x Inr show ?thesis by (auto simp: err_of_def)
    next
      case (Cons org0 rest)
      show ?thesis
      proof (cases "hasNextPage (page_info (org_repositories org0))")
        case False
        with Suc.prems q x Inr Cons show ?thesis by (auto simp: err_of_def Let_def)
      next
        case True
        with Suc.prems q Inr Cons
        have "fetch_org_pages n post (endCursor (page_info (org_repositories org0)))
                (all_repos @ nodes (org_repositories org0)) s1 = (res, s')"
          by (simp add: Let_def)
        from Suc.IH[OF this] obtain new where
          "requests s' = requests s1 @ new"
          "raised_in new = (case err_of res of Some e \<Rightarrow> [e] | None \<Rightarrow> [])"
          by blast
        with x Inr show ?thesis by (auto simp: raised_in_append)
      qed
    qed
  qed
qed

lemma fetch_orgs_raised:
  "fetch_orgs n post orgs all_repos s = (res, s') \<Longrightarrow>
   \<exists>new. requests s' = requests s @ new \<and> raised_in new = (case err_of res of Some e \<Rightarrow> [e] | None \<Rightarrow> [])"
proof (induction orgs arbitrary: all_repos s)
  case Nil
  then show ?case by (auto simp: err_of_def)
next
  case (Cons org orgs)
  obtain r s1 where q: "fetch_org_pages n post None all_repos s = (r, s1)"
    by (cases "fetch_org_pages n post None all_repos s")
  from fetch_org_pages_raised[OF q] obtain new1 where
    n1: "requests s1 = requests s @ new1"
        "raised_in new1 = (case err_of r of Some e \<Rightarrow> [e] | None \<Rightarrow> [])"
    by blast
  show ?case
  proof (cases "\<exists>pool. r = Some (Inr pool)")
    case True
    then obtain pool where r: "r = Some (Inr pool)" by blast
    with Cons.prems q have "fetch_orgs n post orgs pool s1 = (res, s')" by simp
    from Cons.IH[OF this] obtain new2 where
      "requests s' = requests s1 @ new2"
      "raised_in new2 = (case err_of res of Some e \<Rightarrow> [e] | None \<Rightarrow> [])"
      by blast
    with n1 r show ?thesis by (auto simp: raised_in_append err_of_def)
  next
    case False
    with Cons.prems q have "res = r" "s' = s1"
      by (auto split: option.splits sum.splits)
    with n1 show ?thesis by auto
  qed
qed

lemma fetch_all_repositories_raised:
  assumes "fetch_all_repositories n post s = (res, s')"
  shows "\<exists>new. requests s' = requests s @ new \<and>
               raised_in new = (case err_of res of Some e \<Rightarrow> [e] | None \<Rightarrow> [])"
proof -
  obtain r s1 where q: "fetch_personal n post None [] s = (r, s1)"
    by (cases "fetch_personal n post None [] s")
  from fetch_personal_raised[OF q] obtain new1 where
    n1: "requests s1 = requests s @ new1"
        "raised_in new1 = (case err_of r of Some e \<Rightarrow> [e] | None \<Rightarrow> [])"
    by blast
  show ?thesis
  proof (cases "\<exists>v pool. r = Some (Inr (v, pool))")
    case True
    then obtain v pool where r: "r = Some (Inr (v, pool))" by blast
    obtain r2 s2 where q2: "fetch_orgs n post (organizations v) pool s1 = (r2, s2)"
      by (cases "fetch_orgs n post (organizations v) pool s1")
    from fetch_orgs_raised[OF q2] obtain new2 where
      n2: "requests s2 = requests s1 @ new2"
          "raised_in new2 = (case err_of r2 of Some e \<Rightarrow> [e] | None \<Rightarrow> [])"
      by blast
    from assms q r q2 have "s' = s2" "err_of res = err_of r2"
      by (auto simp: fetch_all_repositories_def err_of_def split: option.splits sum.splits)
    with n1 n2 r show ?thesis by (auto simp: raised_in_append err_of_def)
  next
    case False
    with assms q have "s' = s1" "err_of res = err_of r"
      by (auto simp: fetch_all_repositories_def err_of_def split: option.splits sum.splits)
    with n1 show ?thesis by auto
  qed
qed

text \<open>
  Claim C3. Take any run of the enumeration, cut off after any number of loop iterations.
  If one of the requests it sent was answered with a status other than 200, or with status
  200 and a body that has an \<^verbatim>\<open>errors\<close> entry, then the enumeration has ended, and it
  has ended by raising: with the exception that carries that status, respectively that
  error list. The result is then an exception and not a list, so no part of the pool
  reaches the caller.
\<close>

theorem failed_page_aborts_enumeration:
  assumes "fetch_all_repositories n post s = (res, s')"
      and "(vars, Inr resp) \<in> set (new_requests s s')"
      and "status resp \<noteq> 200 \<or> errors resp \<noteq> None"
  shows "res = Some (Inl (if status resp \<noteq> 200 then QueryFailed (status resp)
                          else GraphQLErrors (the (errors resp))))"
proof -
  from fetch_all_repositories_raised[OF assms(1)] obtain new where
    new: "requests s' = requests s @ new"
         "raised_in new = (case err_of res of Some e \<Rightarrow> [e] | None \<Rightarrow> [])"
    by blast
  let ?e = "if status resp \<noteq> 200 then QueryFailed (status resp)
            else GraphQLErrors (the (errors resp))"
  from assms(3) have "raised_by (Inr resp) = Some ?e"
    by (auto simp: raised_by_def)
  moreover from assms(2) new(1) have "(vars, Inr resp) \<in> set new"
    by (simp add: new_requests_def)
  ultimately have "?e \<in> set (raised_in new)"
    using raised_in_mem[of "(vars, Inr resp)" new ?e] by simp
  with new(2) have "err_of res = Some ?e"
    by (auto split: option.splits)
  then show ?thesis
    by (auto simp: err_of_def split: option.splits sum.splits)
qed


lemma forge_failing_result:
  "fst (fetch_all_repositories 5 forge_failing (start ())) = Some (Inl (QueryFailed 502))"
  by code_simp

lemma forge_failing_requests:
  "new_requests (start ()) (snd (fetch_all_repositories 5 forge_failing (start ()))) =
     [([(''repoCursor'', None)],
       Inr \<lparr>status = 200, errors = None, data_viewer = forge_viewer [(''repoCursor'', None)]\<rparr>),
      ([(''repoCursor'', Some ''P1'')],
       Inr \<lparr>status = 200, errors = None,
            data_viewer = forge_viewer [(''repoCursor'', Some ''P1'')]\<rparr>),
      ([(''orgCursor'', None)],
       Inr \<lparr>status = 200, errors = None, data_viewer = forge_viewer [(''orgCursor'', None)]\<rparr>),
      ([(''orgCursor'', Some ''A1'')],
       Inr \<lparr>status = 502, errors = None,
            data_viewer = forge_viewer [(''orgCursor'', Some ''A1'')]\<rparr>)]"
  by code_simp

lemma forge_api_error_result:
  "fst (fetch_all_repositories 5 forge_api_error (start ()))
     = Some (Inl (GraphQLErrors [''rate limited'']))"
  by code_simp

lemma forge_api_error_requests:
  "new_requests (start ()) (snd (fetch_all_repositories 5 forge_api_error (start ()))) =
     [([(''repoCursor'', None)],
       Inr \<lparr>status = 200, errors = None, data_viewer = forge_viewer [(''repoCursor'', None)]\<rparr>),
      ([(''repoCursor'', Some ''P1'')],
       Inr \<lparr>status = 200, errors = Some [''rate limited''],
            data_viewer = forge_viewer [(''repoCursor'', Some ''P1'')]\<rparr>)]"
  by code_simp

text \<open>The forge that answers 502 to the fourth request, and the forge that answers the
  second request with an error list.\<close>

theorem failed_page_aborts_enumeration_witness:
  "([(''orgCursor'', Some ''A1'')],
    Inr \<lparr>status = 502, errors = None, data_viewer = forge_viewer [(''orgCursor'', Some ''A1'')]\<rparr>)
     \<in> set (new_requests (start ()) (snd (fetch_all_repositories 5 forge_failing (start ())))) \<and>
   fst (fetch_all_repositories 5 forge_failing (start ())) = Some (Inl (QueryFailed 502)) \<and>
   ([(''repoCursor'', Some ''P1'')],
    Inr \<lparr>status = 200, errors = Some [''rate limited''],
         data_viewer = forge_viewer [(''repoCursor'', Some ''P1'')]\<rparr>)
     \<in> set (new_requests (start ()) (snd (fetch_all_repositories 5 forge_api_error (start ())))) \<and>
   fst (fetch_all_repositories 5 forge_api_error (start ()))
     = Some (Inl (GraphQLErrors [''rate limited'']))"
  using failed_page_aborts_enumeration[of 5 forge_failing "start ()"
      "fst (fetch_all_repositories 5 forge_failing (start ()))"
      "snd (fetch_all_repositories 5 forge_failing (start ()))"
      "[(''orgCursor'', Some ''A1'')]"
      "\<lparr>status = 502, errors = None, data_viewer = forge_viewer [(''orgCursor'', Some ''A1'')]\<rparr>"]
    failed_page_aborts_enumeration[of 5 forge_api_error "start ()"
      "fst (fetch_all_repositories 5 forge_api_error (start ()))"
      "snd (fetch_all_repositories 5 forge_api_error (start ()))"
      "[(''repoCursor'', Some ''P1'')]"
      "\<lparr>status = 200, errors = Some [''rate limited''],
        data_viewer = forge_viewer [(''repoCursor'', Some ''P1'')]\<rparr>"]
  by (simp add: forge_failing_requests forge_api_error_requests)

text \<open>
  Each pagination loop follows the cursors of the collection it reads and ends on that
  collection's flag. Let the transport serve a source of \<open>K = length ps\<close> pages, of which
  the last and only the last says that there is no next page. Run with room for at least
  \<open>K\<close> iterations, the step-1 loop returns after exactly \<open>K\<close> requests, the first with
  the cursor it started with and each later one with the end cursor of the page before;
  with room for fewer it has not returned. The inner loop of step 2 does the same on the
  collection of the first organization of each response.
\<close>

lemma graphql_query_served:
  assumes "post (world s) vars = (Inr resp, w')" "status resp = 200" "errors resp = None"
  shows "graphql_query post vars s =
           (Inr (data_viewer resp), s\<lparr>world := w', requests := requests s @ [(vars, Inr resp)]\<rparr>)"
  using assms by (simp add: graphql_query_def)

lemma cursors_Cons:
  "ps \<noteq> [] \<Longrightarrow> cursors c (p # ps) = c # cursors (endCursor (page_info p)) ps"
  by (simp add: cursors_def)

lemma cursors_single: "cursors c [p] = [c]"
  by (simp add: cursors_def)

lemma fetch_personal_pages:
  "serves_personal post (world s) c ps \<Longrightarrow> length ps \<le> n \<Longrightarrow>
   \<exists>v s' new. fetch_personal n post c all_repos s
                 = (Some (Inr (v, all_repos @ concat (map nodes ps))), s') \<and>
          requests s' = requests s @ new \<and>
          map fst new = map (\<lambda>k. [(''repoCursor'', k)]) (cursors c ps)"
proof (induction ps arbitrary: n c all_repos s)
  case Nil
  then show ?case by simp
next
  case (Cons p ps)
  from Cons.prems(2) obtain m where n: "n = Suc m" "length ps \<le> m"
    by (cases n) auto
  from Cons.prems(1) obtain resp w' where
    post: "post (world s) [(''repoCursor'', c)] = (Inr resp, w')"
      and ok: "status resp = 200" "errors resp = None"
      and pg: "repositories (data_viewer resp) = p"
      and rest: "if ps = [] then \<not> hasNextPage (page_info p)
                 else hasNextPage (page_info p) \<and>
                      serves_personal post w' (endCursor (page_info p)) ps"
    by (auto split: prod.splits sum.splits)
  let ?s1 = "s\<lparr>world := w', requests := requests s @ [([(''repoCursor'', c)], Inr resp)]\<rparr>"
  let ?s2 = "set_username (data_viewer resp) ?s1"
  have q: "graphql_query post [(''repoCursor'', c)] s = (Inr (data_viewer resp), ?s1)"
    using post ok by (simp add: graphql_query_served)
  show ?case
  proof (cases "ps = []")
    case True
    with rest have "\<not> hasNextPage (page_info p)" by simp
    with q pg have "fetch_personal n post c all_repos s
                      = (Some (Inr (data_viewer resp, all_repos @ nodes p)), ?s2)"
      by (simp add: n Let_def)
    moreover have "requests ?s2 = requests s @ [([(''repoCursor'', c)], Inr resp)]"
      by simp
    ultimately show ?thesis using True
      by (simp add: cursors_single)
  next
    case False
    with rest have more: "hasNextPage (page_info p)"
      and srv: "serves_personal post (world ?s2) (endCursor (page_info p)) ps"
      by simp_all
    from Cons.IH[OF srv n(2), of "all_repos @ nodes p"] obtain v s' new where
      r: "fetch_personal m post (endCursor (page_info p)) (all_repos @ nodes p) ?s2
            = (Some (Inr (v, (all_repos @ nodes p) @ concat (map nodes ps))), s')"
         "requests s' = requests ?s2 @ new"
         "map fst new = map (\<lambda>k. [(''repoCursor'', k)]) (cursors (endCursor (page_info p)) ps)"
      by blast
    from q pg more r(1) have
      "fetch_personal n post c all_repos s
         = (Some (Inr (v, all_repos @ concat (map nodes (p # ps)))), s')"
      by (simp add: n Let_def)
    moreover from r(2) have
      "requests s' = requests s @ (([(''repoCursor'', c)], Inr resp) # new)"
      by simp
    moreover from r(3) False have
      "map fst (([(''repoCursor'', c)], Inr resp) # new)
         = map (\<lambda>k. [(''repoCursor'', k)]) (cursors c (p # ps))"
      by (simp add: cursors_Cons)
    ultimately show ?thesis by blast
  qed
qed

lemma fetch_personal_unfinished:
  "serves_personal post (world s) c ps \<Longrightarrow> n < length ps \<Longrightarrow>
   \<exists>s' new. fetch_personal n post c all_repos s = (None, s') \<and>
          requests s' = requests s @ new \<and> length new = n"
proof (induction ps arbitrary: n c all_repos s)
  case Nil
  then show ?case by simp
next
  case (Cons p ps)
  show ?case
  proof (cases n)
    case 0
    then show ?thesis by simp
  next
    case (Suc m)
    with Cons.prems(2) have m: "m < length ps" by simp
    then have ne: "ps \<noteq> []" by auto
    from Cons.prems(1) ne obtain resp w' where
      post: "post (world s) [(''repoCursor'', c)] = (Inr resp, w')"
        and ok: "status resp = 200" "errors resp = None"
        and pg: "repositories (data_viewer resp) = p"
        and more: "hasNextPage (page_info p)"
        and srv: "serves_personal post w' (endCursor (page_info p)) ps"
      by (auto split: prod.splits sum.splits)
    let ?s1 = "s\<lparr>world := w', requests := requests s @ [([(''repoCursor'', c)], Inr resp)]\<rparr>"
    let ?s2 = "set_username (data_viewer resp) ?s1"
    have q: "graphql_query post [(''repoCursor'', c)] s = (Inr (data_viewer resp), ?s1)"
      using post ok by (simp add: graphql_query_served)
    from srv have srv': "serves_personal post (world ?s2) (endCursor (page_info p)) ps"
      by simp
    from Cons.IH[OF srv' m, of "all_repos @ nodes p"] obtain s' new where
      r: "fetch_personal m post (endCursor (page_info p)) (all_repos @ nodes p) ?s2 = (None, s')"
         "requests s' = requests ?s2 @ new" "length new = m"
      by blast
    from q pg more r(1) have "fetch_personal n post c all_repos s = (None, s')"
      by (simp add: Suc Let_def)
    moreover from r(2) have
      "requests s' = requests s @ (([(''repoCursor'', c)], Inr resp) # new)"
      by simp
    moreover from r(3) have "length (([(''repoCursor'', c)], Inr resp) # new) = n"
      by (simp add: Suc)
    ultimately show ?thesis by blast
  qed
qed


lemma serves_org_head:
  assumes "serves_org post w c (p # ps)"
  obtains resp w' org0 rest where
    "post w [(''orgCursor'', c)] = (Inr resp, w')" "status resp = 200" "errors resp = None"
    "organizations (data_viewer resp) = org0 # rest" "org_repositories org0 = p"
    "if ps = [] then \<not> hasNextPage (page_info p)
     else hasNextPage (page_info p) \<and> serves_org post w' (endCursor (page_info p)) ps"
  using assms by (auto split: prod.splits sum.splits list.splits)

lemma fetch_org_pages_pages:
  "serves_org post (world s) c ps \<Longrightarrow> length ps \<le> n \<Longrightarrow>
   \<exists>s' new. fetch_org_pages n post c all_repos s
               = (Some (Inr (all_repos @ concat (map nodes ps))), s') \<and>
          requests s' = requests s @ new \<and>
          map fst new = map (\<lambda>k. [(''orgCursor'', k)]) (cursors c ps)"
proof (induction ps arbitrary: n c all_repos s)
  case Nil
  then show ?case by simp
next
  case (Cons p ps)
  from Cons.prems(2) obtain m where n: "n = Suc m" "length ps \<le> m"
    by (cases n) auto
  from Cons.prems(1) obtain resp w' org0 rest where
    post: "post (world s) [(''orgCursor'', c)] = (Inr resp, w')"
      and ok: "status resp = 200" "errors resp = None"
      and orgs: "organizations (data_viewer resp) = org0 # rest"
      and pg: "org_repositories org0 = p"
      and rest: "if ps = [] then \<not> hasNextPage (page_info p)
                 else hasNextPage (page_info p) \<and>
                      serves_org post w' (endCursor (page_info p)) ps"
    by (rule serves_org_head)
  let ?s1 = "s\<lparr>world := w', requests := requests s @ [([(''orgCursor'', c)], Inr resp)]\<rparr>"
  have q: "graphql_query post [(''orgCursor'', c)] s = (Inr (data_viewer resp), ?s1)"
    using post ok by (simp add: graphql_query_served)
  show ?case
  proof (cases "ps = []")
    case True
    with rest have "\<not> hasNextPage (page_info p)" by simp
    with q pg orgs have "fetch_org_pages n post c all_repos s
                      = (Some (Inr (all_repos @ nodes p)), ?s1)"
      by (simp add: n Let_def)
    moreover have "requests ?s1 = requests s @ [([(''orgCursor'', c)], Inr resp)]"
      by simp
    ultimately show ?thesis using True
      by (simp add: cursors_single)
  next
    case False
    with rest have more: "hasNextPage (page_info p)"
      and srv: "serves_org post (world ?s1) (endCursor (page_info p)) ps"
      by simp_all
    from Cons.IH[OF srv n(2), of "all_repos @ nodes p"] obtain s' new where
      r: "fetch_org_pages m post (endCursor (page_info p)) (all_repos @ nodes p) ?s1
            = (Some (Inr ((all_repos @ nodes p) @ concat (map nodes ps))), s')"
         "requests s' = requests ?s1 @ new"
         "map fst new = map (\<lambda>k. [(''orgCursor'', k)]) (cursors (endCursor (page_info p)) ps)"
      by blast
    from q pg orgs more r(1) have
      "fetch_org_pages n post c all_repos s
         = (Some (Inr (all_repos @ concat (map nodes (p # ps)))), s')"
      by (simp add: n Let_def)
    moreover from r(2) have
      "requests s' = requests s @ (([(''orgCursor'', c)], Inr resp) # new)"
      by simp
    moreover from r(3) False have
      "map fst (([(''orgCursor'', c)], Inr resp) # new)
         = map (\<lambda>k. [(''orgCursor'', k)]) (cursors c (p # ps))"
      by (simp add: cursors_Cons)
    ultimately show ?thesis by blast
  qed
qed

lemma fetch_org_pages_unfinished:
  "serves_org post (world s) c ps \<Longrightarrow> n < length ps \<Longrightarrow>
   \<exists>s' new. fetch_org_pages n post c all_repos s = (None, s') \<and>
          requests s' = requests s @ new \<and> length new = n"
proof (induction ps arbitrary: n c all_repos s)
  case Nil
  then show ?case by simp
next
  case (Cons p ps)
  show ?case
  proof (cases n)
    case 0
    then show ?thesis by simp
  next
    case (Suc m)
    with Cons.prems(2) have m: "m < length ps" by simp
    then have ne: "ps \<noteq> []" by auto
    from Cons.prems(1) obtain resp w' org0 rest where
      post: "post (world s) [(''orgCursor'', c)] = (Inr resp, w')"
        and ok: "status resp = 200" "errors resp = None"
        and orgs: "organizations (data_viewer resp) = org0 # rest"
        and pg: "org_repositories org0 = p"
        and rest: "if ps = [] then \<not> hasNextPage (page_info p)
                   else hasNextPage (page_info p) \<and>
                        serves_org post w' (endCursor (page_info p)) ps"
      by (rule serves_org_head)
    let ?s1 = "s\<lparr>world := w', requests := requests s @ [([(''orgCursor'', c)], Inr resp)]\<rparr>"
    have q: "graphql_query post [(''orgCursor'', c)] s = (Inr (data_viewer resp), ?s1)"
      using post ok by (simp add: graphql_query_served)
    from rest ne have more: "hasNextPage (page_info p)"
      and srv: "serves_org post (world ?s1) (endCursor (page_info p)) ps"
      by simp_all
    from Cons.IH[OF srv m, of "all_repos @ nodes p"] obtain s' new where
      r: "fetch_org_pages m post (endCursor (page_info p)) (all_repos @ nodes p) ?s1 = (None, s')"
         "requests s' = requests ?s1 @ new" "length new = m"
      by blast
    from q pg orgs more r(1) have "fetch_org_pages n post c all_repos s = (None, s')"
      by (simp add: Suc Let_def)
    moreover from r(2) have
      "requests s' = requests s @ (([(''orgCursor'', c)], Inr resp) # new)"
      by simp
    moreover from r(3) have "length (([(''orgCursor'', c)], Inr resp) # new) = n"
      by (simp add: Suc)
    ultimately show ?thesis by blast
  qed
qed

lemma pagination_of_the_collection_read:
  "(serves_personal post (world s) c ps \<and> length ps \<le> n \<longrightarrow>
      (\<exists>v s'. fetch_personal n post c all_repos s
                 = (Some (Inr (v, all_repos @ concat (map nodes ps))), s') \<and>
               map fst (new_requests s s') = map (\<lambda>k. [(''repoCursor'', k)]) (cursors c ps) \<and>
               length (new_requests s s') = length ps)) \<and>
   (serves_personal post (world s) c ps \<and> n < length ps \<longrightarrow>
      fst (fetch_personal n post c all_repos s) = None) \<and>
   (serves_org post (world s) c ps \<and> length ps \<le> n \<longrightarrow>
      (\<exists>s'. fetch_org_pages n post c all_repos s
               = (Some (Inr (all_repos @ concat (map nodes ps))), s') \<and>
             map fst (new_requests s s') = map (\<lambda>k. [(''orgCursor'', k)]) (cursors c ps) \<and>
             length (new_requests s s') = length ps)) \<and>
   (serves_org post (world s) c ps \<and> n < length ps \<longrightarrow>
      fst (fetch_org_pages n post c all_repos s) = None)"
proof (intro conjI impI)
  assume a: "serves_personal post (world s) c ps \<and> length ps \<le> n"
  then obtain v s' new where
    r: "fetch_personal n post c all_repos s
          = (Some (Inr (v, all_repos @ concat (map nodes ps))), s')"
       "requests s' = requests s @ new"
       "map fst new = map (\<lambda>k. [(''repoCursor'', k)]) (cursors c ps)"
    using fetch_personal_pages[of post s c ps n all_repos] by blast
  from r(2) have new: "new_requests s s' = new" by (simp add: new_requests_def)
  from a have "ps \<noteq> []" by auto
  then have "length (cursors c ps) = length ps" by (simp add: cursors_def)
  with r(3) have "length new = length ps" by (metis length_map)
  with r new show "\<exists>v s'. fetch_personal n post c all_repos s
                 = (Some (Inr (v, all_repos @ concat (map nodes ps))), s') \<and>
               map fst (new_requests s s') = map (\<lambda>k. [(''repoCursor'', k)]) (cursors c ps) \<and>
               length (new_requests s s') = length ps"
    by auto
next
  assume "serves_personal post (world s) c ps \<and> n < length ps"
  then show "fst (fetch_personal n post c all_repos s) = None"
    using fetch_personal_unfinished[of post s c ps n all_repos] by auto
next
  assume a: "serves_org post (world s) c ps \<and> length ps \<le> n"
  then obtain s' new where
    r: "fetch_org_pages n post c all_repos s
          = (Some (Inr (all_repos @ concat (map nodes ps))), s')"
       "requests s' = requests s @ new"
       "map fst new = map (\<lambda>k. [(''orgCursor'', k)]) (cursors c ps)"
    using fetch_org_pages_pages[of post s c ps n all_repos] by blast
  from r(2) have new: "new_requests s s' = new" by (simp add: new_requests_def)
  from a have "ps \<noteq> []" by auto
  then have "length (cursors c ps) = length ps" by (simp add: cursors_def)
  with r(3) have "length new = length ps" by (metis length_map)
  with r new show "\<exists>s'. fetch_org_pages n post c all_repos s
               = (Some (Inr (all_repos @ concat (map nodes ps))), s') \<and>
             map fst (new_requests s s') = map (\<lambda>k. [(''orgCursor'', k)]) (cursors c ps) \<and>
             length (new_requests s s') = length ps"
    by auto
next
  assume "serves_org post (world s) c ps \<and> n < length ps"
  then show "fst (fetch_org_pages n post c all_repos s) = None"
    using fetch_org_pages_unfinished[of post s c ps n all_repos] by auto
qed



subsection \<open>The loop over the organizations\<close>

text \<open>The loop over the organizations does not look at them: any two lists of
  organizations of the same length give the same run.\<close>

lemma fetch_orgs_ignores_org:
  "length orgs = length orgs' \<Longrightarrow>
   fetch_orgs n post orgs all_repos s = fetch_orgs n post orgs' all_repos s"
proof (induction orgs orgs' arbitrary: all_repos s rule: list_induct2)
  case Nil
  show ?case by simp
next
  case (Cons x xs y ys)
  then show ?case
    by (simp split: prod.splits option.splits sum.splits)
qed

text \<open>
  Claim C1, evaluated on the forge. The organizations discovered are \<open>a\<close> and \<open>b\<close>, and
  every response carries the page \<open>[a/x]\<close> (or \<open>[a/y]\<close>) of \<open>a\<close> and the page \<open>[b/x]\<close>
  of \<open>b\<close>. The enumeration sends the two requests of step 1 and then, once for each of
  the two organizations, the same two requests with \<^verbatim>\<open>orgCursor\<close>; each time it reads
  the pages of \<open>a\<close>. The list it returns holds \<open>a/x\<close> and \<open>a/y\<close> and not \<open>b/x\<close>: the
  pages taken in the iteration for \<open>b\<close> are those of \<open>a\<close>.
\<close>

theorem org_loop_reads_first_organization:
  "map org_login (organizations (forge_viewer [(''repoCursor'', Some ''P1'')])) = [''a'', ''b''] \<and>
   map (\<lambda>g. map nameWithOwner (nodes (org_repositories g)))
       (organizations (forge_viewer [(''orgCursor'', None)])) = [[''a/x''], [''b/x'']] \<and>
   map fst (new_requests (start ()) (snd (fetch_all_repositories 5 forge (start ()))))
     = [[(''repoCursor'', None)], [(''repoCursor'', Some ''P1'')],
        [(''orgCursor'', None)], [(''orgCursor'', Some ''A1'')],
        [(''orgCursor'', None)], [(''orgCursor'', Some ''A1'')]] \<and>
   fst (fetch_all_repositories 5 forge (start ()))
     = Some (Inr [mk_repo ''me'' ''p1'' False, mk_repo ''me'' ''p2'' True,
                  mk_repo ''a'' ''x'' False, mk_repo ''a'' ''y'' False])"
  by code_simp


text \<open>
  Claim C8, evaluated on the forge. The collection of organization \<open>b\<close>, the second
  organization discovered, has one page, which says that there is no next page. The
  iteration of the loop for \<open>b\<close> sends two requests, not one: it reads the pages of \<open>a\<close>
  and ends on the flag of \<open>a\<close>'s second page, having added \<open>a/x\<close> and \<open>a/y\<close>. In the
  whole enumeration the two-page collection of \<open>a\<close> is asked for four times and the
  page of \<open>b\<close> is never the one read.
\<close>

theorem org_loop_requests_not_per_source:
  "organizations (forge_viewer [(''repoCursor'', Some ''P1'')]) ! 1
     = \<lparr>org_login = ''b'',
        org_repositories = page [mk_repo ''b'' ''x'' False] False (Some ''B1'')\<rparr> \<and>
   map fst (new_requests (start ())
      (snd (fetch_orgs 5 forge
              [\<lparr>org_login = ''b'',
                org_repositories = page [mk_repo ''b'' ''x'' False] False (Some ''B1'')\<rparr>]
              [] (start ()))))
     = [[(''orgCursor'', None)], [(''orgCursor'', Some ''A1'')]] \<and>
   fst (fetch_orgs 5 forge
          [\<lparr>org_login = ''b'',
            org_repositories = page [mk_repo ''b'' ''x'' False] False (Some ''B1'')\<rparr>]
          [] (start ()))
     = Some (Inr [mk_repo ''a'' ''x'' False, mk_repo ''a'' ''y'' False]) \<and>
   map fst (new_requests (start ()) (snd (fetch_all_repositories 5 forge (start ()))))
     = [[(''repoCursor'', None)], [(''repoCursor'', Some ''P1'')],
        [(''orgCursor'', None)], [(''orgCursor'', Some ''A1'')],
        [(''orgCursor'', None)], [(''orgCursor'', Some ''A1'')]]"
  by code_simp

subsection \<open>Exit status\<close>

text \<open>
  Claim C7, evaluated on the file as it is. \<^verbatim>\<open>main\<close> reads \<^verbatim>\<open>MAX_CONCURRENT_CLONES\<close> on
  line 232 and declares it \<^verbatim>\<open>global\<close> on line 236, so the compiler refuses the file, and
  the process exits with status 1 however \<^verbatim>\<open>asyncio.run(main())\<close> would have ended: no
  run completes, and none exits with status 0.
\<close>

theorem script_refused_by_compiler:
  "prior_to_global [] main_body = Some ''MAX_CONCURRENT_CLONES'' \<and> script outcome = 1"
  by (simp add: script_def main_body_def)

end
